theory Spec2Isabelle
  imports Main "HOL-Library.Word"
begin

section \<open>The Iceberg table sink of be/src/runtime/iceberg\_table\_sink.cpp\<close>

text \<open>
  The sink receives chunks (columnar batches), splits each one by partition key, appends
  every part to the file writer of its partition, rolls a writer over once its file has
  reached the byte budget, and, on close, finishes the writers and reports the files to
  the frontend. The collaborators the sink calls (expression evaluation, the date
  formatter, the broker file system, the ORC builder, the RPC client, the clock) are not
  part of the file: their answers are inputs of the model, collected in the record
  \<open>env\<close>, and so is the order in which the container of the writers is traversed.
  Everything the sink itself decides is a definition below, named as in the source.
\<close>

subsection \<open>Status values\<close>

text \<open>
  \<open>Status\<close>: \<open>OK\<close> or an error with its message. \<open>NotSupported\<close>, \<open>InternalError\<close> and
  \<open>NotFound\<close> are the codes the sink constructs itself; \<open>Failed\<close> stands for any error a
  collaborator hands back.
\<close>

datatype status = OK | NotSupported string | InternalError string | NotFound string | Failed string

definition ok :: "status \<Rightarrow> bool" where
  "ok s \<longleftrightarrow> s = OK"

text \<open>
  What a call of the sink can end in: it returns a \<open>Status\<close>, or it leaves defined
  behaviour (a null column is dereferenced, an index runs out of range, \<open>map::at\<close> throws).
\<close>

datatype fault = NullColumn | IndexOutOfRange | KeyMissing

datatype outcome = Returned status | Undefined fault

subsection \<open>Static configuration\<close>

text \<open>\<open>TIcebergTablePartitionColumn\<close> and the fields of \<open>TIcebergTableSink\<close> the sink reads.\<close>

record partition_column =
  columnName :: string
  transform :: string
  partitionName :: string

text \<open>
  \<open>file_name_prefix\<close> is an optional Thrift field (\<open>__isset.file_name_prefix\<close>);
  \<open>bytes_per_file\<close> is a Thrift \<open>i64\<close>. The sink compares it with \<open>file_size()\<close>, a
  \<open>size_t\<close>, and copies it into a \<open>uint64_t\<close>: both read it unsigned (\<open>unat\<close>).
\<close>

record sink_config =
  file_name_prefix :: "string option"
  file_format :: string
  location :: string
  broker_addresses :: "string list"
  bytes_per_file :: "64 word"
  partitionColumns :: "partition_column list"

text \<open>A slot of the output tuple descriptor: its id and its column name.\<close>

record slot =
  slot_id :: nat
  col_name :: string

text \<open>
  The members of the sink fixed by \<open>init\<close> and \<open>prepare\<close>: the Thrift sink description,
  the slots of the output tuple descriptor and the number of output expressions.
\<close>

record sink =
  t_iceberg_sink :: sink_config
  output_slots :: "slot list"
  num_output_exprs :: nat

subsection \<open>Chunks\<close>

text \<open>
  A column is the list of its rows' values. The sink reads a value only through
  \<open>get(i).get_timestamp().to_unix_second()\<close>, so a value is modelled by that number.
  A chunk is its columns and its slot-id-to-index map; \<open>num_rows\<close> is the size of the
  first column (0 without columns), as \<open>Chunk::num_rows\<close> has it.
\<close>

type_synonym column = "int list"

record chunk =
  columns :: "column list"
  slot_id_to_index :: "nat \<rightharpoonup> nat"

definition num_rows :: "chunk \<Rightarrow> nat" where
  "num_rows c = (case columns c of [] \<Rightarrow> 0 | x # _ \<Rightarrow> length x)"

definition nth_opt :: "'a list \<Rightarrow> nat \<Rightarrow> 'a option" where
  "nth_opt xs i = (if i < length xs then Some (xs ! i) else None)"

text \<open>\<open>get_column_by_slot_id\<close>: the column at the index the slot id maps to, if there is one.\<close>

definition get_column_by_slot_id :: "chunk \<Rightarrow> nat \<Rightarrow> column option" where
  "get_column_by_slot_id c sid =
     (case slot_id_to_index c sid of None \<Rightarrow> None | Some i \<Rightarrow> nth_opt (columns c) i)"

text \<open>\<open>append_column(column, slot_id)\<close>.\<close>

definition append_column :: "chunk \<Rightarrow> column \<Rightarrow> nat \<Rightarrow> chunk" where
  "append_column c col sid =
     c\<lparr>columns := columns c @ [col],
       slot_id_to_index := (slot_id_to_index c)(sid \<mapsto> length (columns c))\<rparr>"

subsection \<open>Writers and the state of the sink\<close>

text \<open>
  A partition writer (a \<open>FileBuilder\<close> over one output file): the path of its file, the
  bytes it reports through \<open>file_size()\<close> (the environment says what a new builder
  reports and by how much each \<open>add_chunk\<close> raises it), and the stripe size it was built
  with.
\<close>

record writer =
  w_path :: string
  w_size :: nat
  w_stripe :: nat

text \<open>
  The mutable state: \<open>_partition_writer_map\<close> and the list behind
  \<open>add_export_output_file\<close>/\<open>export_output_files\<close>. The map is an association list with
  at most one entry per key. The list stands for the content of the container only: the
  order of its entries is the order in which the writers were made, and nothing the sink
  does depends on it. The order in which the container is traversed is the container's
  own (the order of the keys for a \<open>std::map\<close>, that of the buckets for a
  \<open>std::unordered_map\<close>; the member is declared in the header); \<open>close\<close>, the one place
  that traverses it, takes that order from the environment (\<open>iteration_order\<close> below).
  Two more lists record what happened and steer nothing: the paths of the writers whose
  \<open>finish()\<close> returned OK, and the \<open>add_chunk\<close> calls made (partition key and the chunk
  passed).
\<close>

record sink_state =
  partition_writer_map :: "(string \<times> writer) list"
  export_output_files :: "string list"
  finished_files :: "string list"
  add_chunk_log :: "(string \<times> chunk) list"

definition initial_state :: sink_state where
  "initial_state = \<lparr>partition_writer_map = [], export_output_files = [],
                     finished_files = [], add_chunk_log = []\<rparr>"

subsection \<open>The collaborators' answers\<close>

text \<open>
  The result of one \<open>addIcebergFiles\<close> call: a response carrying a status, a
  \<open>TTransportException\<close>, or another \<open>TException\<close>.
\<close>

datatype rpc_outcome = Response status | Throw_TTransportException | Throw_TException

text \<open>
  One record holds the answers of the collaborators during one call of the sink.
  Answers that belong to a writer are indexed by its partition key (a call touches a key
  at most once); the RPC attempts and reopens are indexed by their number (0 for the
  first). \<open>new_file_size\<close> is what \<open>file_size()\<close> reports for a builder that has just been
  made (a file format may start a file with a header). \<open>key_rank\<close> is the place of a key
  in the traversal of \<open>_partition_writer_map\<close>: a key of lower rank is met first.
\<close>

record env =
  evaluate :: "nat \<Rightarrow> string + column"
  utc_offset :: int
  day_string :: "int \<Rightarrow> string"
  backend_id :: int
  UnixMillis :: "string \<Rightarrow> int"
  new_writable_file :: "string \<Rightarrow> status"
  new_file_size :: "string \<Rightarrow> nat"
  finish :: "string \<Rightarrow> status"
  add_chunk :: "string \<Rightarrow> chunk \<Rightarrow> status \<times> nat"
  connect :: status
  addIcebergFiles :: "nat \<Rightarrow> rpc_outcome"
  reopen :: "nat \<Rightarrow> status"
  key_rank :: "string \<Rightarrow> nat"

subsection \<open>close\<close>

text \<open>What \<open>close\<close> does to the outside, in order.\<close>

datatype event = EvFinish string | EvConnect | EvSend "string list" | EvReopen

text \<open>
  \<open>for (auto& it : _partition_writer_map)\<close> meets the entries in the container's order:
  by ascending \<open>key_rank\<close>. Every order of the entries is the order of some rank, so
  nothing is assumed about the container.
\<close>

definition iteration_order :: "env \<Rightarrow> (string \<times> writer) list \<Rightarrow> (string \<times> writer) list" where
  "iteration_order e m = sort_key (\<lambda>kw. key_rank e (fst kw)) m"

text \<open>
  The loop over \<open>_partition_writer_map\<close>: \<open>finish()\<close> on each writer, returning at the
  first status that is not OK. The result is that status, the events, and the paths of
  the writers finished with OK.
\<close>

fun finish_writers :: "env \<Rightarrow> (string \<times> writer) list \<Rightarrow> status \<times> event list \<times> string list" where
  "finish_writers e [] = (OK, [], [])"
| "finish_writers e ((k, w) # ws) =
     (if ok (finish e k)
      then (case finish_writers e ws of (st, evs, done) \<Rightarrow> (st, EvFinish k # evs, w_path w # done))
      else (finish e k, [EvFinish k], []))"

definition commit_failed :: status where
  "commit_failed = InternalError ''Fail to add export files to iceberg table''"

text \<open>
  The commit: connect, send, and the nested \<open>try\<close> blocks. A \<open>TTransportException\<close> of the
  first send leads to \<open>reopen\<close> and, if that is OK, to the second send; any \<open>TException\<close>
  that reaches the outer handler leads to a \<open>reopen\<close> whose status is dropped and to an
  internal error (its message, which goes on with the address and the exception's text,
  is cut after the fixed words). A response's status is returned as it is.
\<close>

definition commit :: "env \<Rightarrow> string list \<Rightarrow> status \<times> event list" where
  "commit e files =
     (if \<not> ok (connect e) then (connect e, [EvConnect])
      else case addIcebergFiles e 0 of
          Response r \<Rightarrow> (r, [EvConnect, EvSend files])
        | Throw_TException \<Rightarrow> (commit_failed, [EvConnect, EvSend files, EvReopen])
        | Throw_TTransportException \<Rightarrow>
            (if \<not> ok (reopen e 0) then (reopen e 0, [EvConnect, EvSend files, EvReopen])
             else case addIcebergFiles e 1 of
                 Response r \<Rightarrow> (r, [EvConnect, EvSend files, EvReopen, EvSend files])
               | _ \<Rightarrow> (commit_failed,
                        [EvConnect, EvSend files, EvReopen, EvSend files, EvReopen])))"

text \<open>
  \<open>close(state, exec_status)\<close>: finish the writers; return OK if no file was recorded;
  otherwise commit. \<open>exec_status\<close> is a parameter the body never reads.
\<close>

definition close :: "env \<Rightarrow> sink_state \<Rightarrow> status \<Rightarrow> status \<times> event list \<times> sink_state" where
  "close e st exec_status =
     (case finish_writers e (iteration_order e (partition_writer_map st)) of (fs, evs, done) \<Rightarrow>
        (let st' = st\<lparr>finished_files := finished_files st @ done\<rparr> in
         if \<not> ok fs then (fs, evs, st')
         else if length (export_output_files st) = 0 then (OK, evs, st')
         else (case commit e (export_output_files st) of (cs, cevs) \<Rightarrow> (cs, evs @ cevs, st'))))"

subsection \<open>File names\<close>

text \<open>Decimal rendering, as \<open>std::to_string\<close> and \<open>operator<<\<close> give it for an \<open>int64_t\<close>.\<close>

definition digit_char :: "nat \<Rightarrow> char" where
  "digit_char d = ''0123456789'' ! d"

fun dec_nat :: "nat \<Rightarrow> string" where
  "dec_nat n = (if n < 10 then [digit_char n] else dec_nat (n div 10) @ [digit_char (n mod 10)])"

declare dec_nat.simps [simp del]

definition dec_int :: "int \<Rightarrow> string" where
  "dec_int i = (if i < 0 then CHR ''-'' # dec_nat (nat (- i)) else dec_nat (nat i))"

text \<open>
  \<open>gen_file_name\<close>: prefix, backend id and the clock's milliseconds, with the extension
  of the format. The backend id and the clock are read from the environment.
\<close>

definition orc_file_name :: "string \<Rightarrow> int \<Rightarrow> int \<Rightarrow> string" where
  "orc_file_name prefix backend millis = prefix @ ''_'' @ dec_int backend @ ''_'' @ dec_int millis @ ''.orc''"

definition gen_file_name :: "sink_config \<Rightarrow> int \<Rightarrow> int \<Rightarrow> status + string" where
  "gen_file_name cfg backend millis =
     (case file_name_prefix cfg of
        None \<Rightarrow> Inl (InternalError ''file name prefix is not set'')
      | Some prefix \<Rightarrow>
          if file_format cfg = ''orc''
          then Inr (orc_file_name prefix backend millis)
          else Inl (NotSupported (''unsupported file format '' @ file_format cfg)))"

text \<open>The path of a partition's file: \<open>location + "/data/" + partition_key + file_name\<close>.\<close>

definition file_path_of :: "sink_config \<Rightarrow> string \<Rightarrow> string \<Rightarrow> string" where
  "file_path_of cfg partition_key file_name = location cfg @ ''/data/'' @ partition_key @ file_name"

subsection \<open>prepare\_partition\_writer and write\_to\_partition\<close>

text \<open>The stripe size: the byte budget, halved while it is above 64 MiB.\<close>

function stripe_size_of :: "nat \<Rightarrow> nat" where
  "stripe_size_of n = (if n > 64 * 1024 * 1024 then stripe_size_of (n div 2) else n)"
  by pat_completeness auto
termination
  by (relation "measure (\<lambda>n. n)") auto

declare stripe_size_of.simps [simp del]

text \<open>
  \<open>insert\<close> keeps an entry that is already there; \<open>erase\<close> removes the key's entry.
  Where in the list a new entry goes is of no consequence (see \<open>iteration_order\<close>).
\<close>

definition map_insert :: "(string \<times> writer) list \<Rightarrow> string \<Rightarrow> writer \<Rightarrow> (string \<times> writer) list" where
  "map_insert m k w = (case map_of m k of None \<Rightarrow> m @ [(k, w)] | Some _ \<Rightarrow> m)"

definition map_erase :: "(string \<times> writer) list \<Rightarrow> string \<Rightarrow> (string \<times> writer) list" where
  "map_erase m k = filter (\<lambda>kw. fst kw \<noteq> k) m"

text \<open>
  The second half of \<open>prepare_partition_writer\<close> (from \<open>gen_file_name\<close> on): name the
  file, open it through the broker, build the writer, insert it, record the path.
\<close>

definition create_writer :: "sink \<Rightarrow> env \<Rightarrow> sink_state \<Rightarrow> string \<Rightarrow> status \<times> sink_state" where
  "create_writer S e st partition_key =
     (let cfg = t_iceberg_sink S in
      case gen_file_name cfg (backend_id e) (UnixMillis e partition_key) of
        Inl err \<Rightarrow> (err, st)
      | Inr file_name \<Rightarrow>
          (let file_path = file_path_of cfg partition_key file_name in
           if broker_addresses cfg = [] then (NotFound ''no broker found '', st)
           else if \<not> ok (new_writable_file e file_path) then (new_writable_file e file_path, st)
           else if file_format cfg = ''orc''
           then (OK, st\<lparr>partition_writer_map :=
                          map_insert (partition_writer_map st) partition_key
                            \<lparr>w_path = file_path, w_size = new_file_size e partition_key,
                             w_stripe = stripe_size_of (unat (bytes_per_file cfg))\<rparr>,
                        export_output_files := export_output_files st @ [file_path]\<rparr>)
           else (NotSupported (''unsupported file format '' @ file_format cfg), st)))"

text \<open>
  \<open>prepare_partition_writer\<close>: a writer below the budget is kept; one at or above it is
  finished and erased (an error of \<open>finish\<close> is returned and the writer stays); then, as
  for a key without a writer, a new one is created.
\<close>

definition prepare_partition_writer :: "sink \<Rightarrow> env \<Rightarrow> sink_state \<Rightarrow> string \<Rightarrow> status \<times> sink_state" where
  "prepare_partition_writer S e st partition_key =
     (case map_of (partition_writer_map st) partition_key of
        Some w \<Rightarrow>
          if w_size w \<ge> unat (bytes_per_file (t_iceberg_sink S))
          then (if \<not> ok (finish e partition_key) then (finish e partition_key, st)
                else create_writer S e
                       (st\<lparr>partition_writer_map := map_erase (partition_writer_map st) partition_key,
                           finished_files := finished_files st @ [w_path w]\<rparr>)
                       partition_key)
          else (OK, st)
      | None \<Rightarrow> create_writer S e st partition_key)"

text \<open>
  \<open>add_chunk\<close> on the key's writer: the environment gives the status and the number of
  bytes the file grows by; the call is logged.
\<close>

definition writer_add_chunk :: "env \<Rightarrow> sink_state \<Rightarrow> string \<Rightarrow> chunk \<Rightarrow> status \<times> sink_state" where
  "writer_add_chunk e st partition_key c =
     (case add_chunk e partition_key c of (s, grown) \<Rightarrow>
        (s, st\<lparr>partition_writer_map :=
                 map (\<lambda>kw. if fst kw = partition_key
                            then (fst kw, (snd kw)\<lparr>w_size := w_size (snd kw) + grown\<rparr>) else kw)
                     (partition_writer_map st),
               add_chunk_log := add_chunk_log st @ [(partition_key, c)]\<rparr>))"

definition write_to_partition :: "sink \<Rightarrow> env \<Rightarrow> sink_state \<Rightarrow> chunk \<Rightarrow> string \<Rightarrow> outcome \<times> sink_state" where
  "write_to_partition S e st c partitionKey =
     (case prepare_partition_writer S e st partitionKey of (s, st1) \<Rightarrow>
        if \<not> ok s then (Returned s, st1)
        else (case map_of (partition_writer_map st1) partitionKey of
                None \<Rightarrow> (Undefined KeyMissing, st1)
              | Some w \<Rightarrow> (case writer_add_chunk e st1 partitionKey c of (s2, st2) \<Rightarrow> (Returned s2, st2))))"

subsection \<open>send\_chunk: the output chunk\<close>

text \<open>
  With output expressions, a new chunk is built: the i-th expression is evaluated
  (\<open>evaluate e i\<close> is the column after the null and constant columns are unpacked, or the
  message of the error that is returned) and appended under the id of the i-th slot.
\<close>

fun project :: "env \<Rightarrow> slot list \<Rightarrow> nat list \<Rightarrow> chunk \<Rightarrow> outcome + chunk" where
  "project e slots [] out = Inr out"
| "project e slots (i # is) out =
     (case evaluate e i of
        Inl msg \<Rightarrow> Inl (Returned (Failed msg))
      | Inr col \<Rightarrow>
          (case nth_opt slots i of
             None \<Rightarrow> Inl (Undefined IndexOutOfRange)
           | Some s \<Rightarrow> project e slots is (append_column out col (slot_id s))))"

text \<open>
  Without output expressions the caller's chunk is used, after \<open>reset_slot_id_to_index\<close>
  and one \<open>set_slot_id_to_index(slots[i]->id(), i)\<close> per slot.
\<close>

fun set_slot_ids :: "slot list \<Rightarrow> nat \<Rightarrow> (nat \<rightharpoonup> nat) \<Rightarrow> (nat \<rightharpoonup> nat)" where
  "set_slot_ids [] i m = m"
| "set_slot_ids (s # ss) i m = set_slot_ids ss (Suc i) (m(slot_id s \<mapsto> i))"

definition reindex_slots :: "slot list \<Rightarrow> chunk \<Rightarrow> chunk" where
  "reindex_slots slots c = c\<lparr>slot_id_to_index := set_slot_ids slots 0 Map.empty\<rparr>"

subsection \<open>send\_chunk: binding the partition columns\<close>

text \<open>
  \<open>partition_columns\<close> starts as one null pointer per partition column. For every
  partition column, in order, every slot with its name stores the slot's column at
  \<open>index\<close> and advances \<open>index\<close>. A store past the end of the array is undefined.
\<close>

fun bind_slots :: "chunk \<Rightarrow> string \<Rightarrow> slot list \<Rightarrow> column option list \<times> nat
    \<Rightarrow> fault + (column option list \<times> nat)" where
  "bind_slots c name [] (arr, index) = Inr (arr, index)"
| "bind_slots c name (s # ss) (arr, index) =
     (if col_name s = name
      then (if index < length arr
            then bind_slots c name ss (arr[index := get_column_by_slot_id c (slot_id s)], Suc index)
            else Inl IndexOutOfRange)
      else bind_slots c name ss (arr, index))"

fun bind_columns :: "chunk \<Rightarrow> slot list \<Rightarrow> partition_column list \<Rightarrow> column option list \<times> nat
    \<Rightarrow> fault + (column option list \<times> nat)" where
  "bind_columns c slots [] st = Inr st"
| "bind_columns c slots (pc # pcs) st =
     (case bind_slots c (columnName pc) slots st of
        Inl f \<Rightarrow> Inl f
      | Inr st' \<Rightarrow> bind_columns c slots pcs st')"

definition bind_partition_columns :: "chunk \<Rightarrow> slot list \<Rightarrow> partition_column list
    \<Rightarrow> fault + column option list" where
  "bind_partition_columns c slots pcs =
     (case bind_columns c slots pcs (replicate (length pcs) None, 0) of
        Inl f \<Rightarrow> Inl f
      | Inr (arr, index) \<Rightarrow> Inr arr)"

subsection \<open>send\_chunk: the partition key of a row\<close>

text \<open>
  The inner loop over the partition columns for row \<open>i\<close>: a \<open>day\<close> transform reads the
  row's value of the bound column, subtracts the zone offset and appends
  \<open>partitionName=day/\<close> to the key; any other transform returns \<open>NotSupported\<close>. The date
  text is the environment's (\<open>from_unixtime\<close> and \<open>to_format_string\<close> with \<open>%Y-%m-%d\<close>).
\<close>

fun derive_key :: "env \<Rightarrow> column option list \<Rightarrow> partition_column list \<Rightarrow> nat \<Rightarrow> nat \<Rightarrow> string
    \<Rightarrow> outcome + string" where
  "derive_key e partition_columns [] columnIdx i partitionKey = Inr partitionKey"
| "derive_key e partition_columns (pc # pcs) columnIdx i partitionKey =
     (if transform pc = ''day''
      then (case nth_opt partition_columns columnIdx of
              None \<Rightarrow> Inl (Undefined IndexOutOfRange)
            | Some None \<Rightarrow> Inl (Undefined NullColumn)
            | Some (Some col) \<Rightarrow>
                (case nth_opt col i of
                   None \<Rightarrow> Inl (Undefined IndexOutOfRange)
                 | Some v \<Rightarrow>
                     derive_key e partition_columns pcs (Suc columnIdx) i
                       (partitionKey @ partitionName pc @ ''='' @ day_string e (v - utc_offset e) @ ''/'')))
      else Inl (Returned (NotSupported (''unsupported transform '' @ transform pc))))"

subsection \<open>send\_chunk: the vector of keys and the rows' references\<close>

text \<open>
  \<open>partitionKeys\<close> is a \<open>std::vector<std::string>\<close>, and a row remembers the \<open>data()\<close>
  pointer of its key's element. What that pointer is depends on the standard library:
  a string of at most \<open>sso_capacity\<close> characters keeps its characters inside the string
  object, that is inside the vector's buffer; a longer one keeps them in a heap block of
  its own, which a move hands over. A vector that is full moves its elements to a new
  buffer of capacity \<open>grow size\<close> before it appends.
\<close>

record stdlib =
  sso_capacity :: nat
  grow :: "nat \<Rightarrow> nat"

text \<open>
  An address: inside element \<open>j\<close> of the vector's \<open>g\<close>-th buffer, or the \<open>b\<close>-th heap block.
  Buffers and blocks are numbered as they are allocated. A new buffer is allocated while
  the old one still holds the elements, so two consecutive buffers never share an
  address; the model takes any two buffers, and any two blocks, to lie apart.
\<close>

datatype addr = Inline nat nat | Heap nat

record key_vector =
  kv_items :: "(string \<times> nat) list"
  kv_capacity :: nat
  kv_buffer :: nat
  kv_blocks :: nat

definition empty_vector :: key_vector where
  "empty_vector = \<lparr>kv_items = [], kv_capacity = 0, kv_buffer = 0, kv_blocks = 0\<rparr>"

definition keys_of :: "key_vector \<Rightarrow> string list" where
  "keys_of kv = map fst (kv_items kv)"

text \<open>\<open>data()\<close> of element \<open>j\<close>.\<close>

definition data_ptr :: "stdlib \<Rightarrow> key_vector \<Rightarrow> nat \<Rightarrow> addr" where
  "data_ptr L kv j =
     (case kv_items kv ! j of (s, b) \<Rightarrow>
        if length s \<le> sso_capacity L then Inline (kv_buffer kv) j else Heap b)"

text \<open>\<open>emplace_back(key)\<close>: reallocate if full, then copy-construct the new element.\<close>

definition emplace_back :: "stdlib \<Rightarrow> key_vector \<Rightarrow> string \<Rightarrow> key_vector" where
  "emplace_back L kv s =
     (let kv' = (if length (kv_items kv) = kv_capacity kv
                 then kv\<lparr>kv_capacity := grow L (length (kv_items kv)), kv_buffer := Suc (kv_buffer kv)\<rparr>
                 else kv)
      in kv'\<lparr>kv_items := kv_items kv' @ [(s, kv_blocks kv')], kv_blocks := Suc (kv_blocks kv')\<rparr>)"

text \<open>\<open>std::find\<close>: the position of the first equal element, the length if there is none.\<close>

fun find_pos :: "string list \<Rightarrow> string \<Rightarrow> nat" where
  "find_pos [] k = 0"
| "find_pos (x # xs) k = (if x = k then 0 else Suc (find_pos xs k))"

text \<open>
  The loop over the rows: derive the key, append it if \<open>std::find\<close> does not find it, find
  it, and store its \<open>data()\<close> in \<open>partitionReferences[i]\<close>.
\<close>

fun assign_rows :: "stdlib \<Rightarrow> env \<Rightarrow> column option list \<Rightarrow> partition_column list \<Rightarrow> nat list
    \<Rightarrow> key_vector \<times> addr option list \<Rightarrow> outcome + (key_vector \<times> addr option list)" where
  "assign_rows L e partition_columns pcs [] acc = Inr acc"
| "assign_rows L e partition_columns pcs (i # is) (partitionKeys, partitionReferences) =
     (case derive_key e partition_columns pcs 0 i [] of
        Inl r \<Rightarrow> Inl r
      | Inr partitionKey \<Rightarrow>
          (let keys' = (if find_pos (keys_of partitionKeys) partitionKey = length (keys_of partitionKeys)
                        then emplace_back L partitionKeys partitionKey else partitionKeys);
               pKey = find_pos (keys_of keys') partitionKey
           in assign_rows L e partition_columns pcs is
                (keys', partitionReferences[i := Some (data_ptr L keys' pKey)])))"

subsection \<open>send\_chunk: writing the partitions\<close>

text \<open>
  \<open>clone_empty_with_slot\<close> followed by \<open>append_selective\<close>: the rows at the selected
  indices, column by column, under the same slot map. An index beyond a column is
  undefined.
\<close>

definition append_selective :: "chunk \<Rightarrow> nat list \<Rightarrow> fault + chunk" where
  "append_selective c select_idx =
     (if \<forall>col \<in> set (columns c). \<forall>i \<in> set select_idx. i < length col
      then Inr (c\<lparr>columns := map (\<lambda>col. map (\<lambda>i. col ! i) select_idx) (columns c)\<rparr>)
      else Inl IndexOutOfRange)"

text \<open>The rows whose stored reference equals the key's \<open>data()\<close>.\<close>

definition select_rows :: "addr option list \<Rightarrow> addr \<Rightarrow> nat list" where
  "select_rows partitionReferences partition_ptr =
     filter (\<lambda>i. partitionReferences ! i = Some partition_ptr) [0 ..< length partitionReferences]"

text \<open>
  The loop over \<open>partitionKeys\<close> (by position \<open>j\<close>) of the branch for several keys: select,
  copy, write, and return at the first write that is not OK.
\<close>

fun write_partitions :: "sink \<Rightarrow> stdlib \<Rightarrow> env \<Rightarrow> chunk \<Rightarrow> key_vector \<Rightarrow> addr option list
    \<Rightarrow> nat list \<Rightarrow> sink_state \<Rightarrow> outcome \<times> sink_state" where
  "write_partitions S L e c partitionKeys partitionReferences [] st = (Returned OK, st)"
| "write_partitions S L e c partitionKeys partitionReferences (j # js) st =
     (let partition_ptr = data_ptr L partitionKeys j;
          select_idx = select_rows partitionReferences partition_ptr
      in case append_selective c select_idx of
           Inl f \<Rightarrow> (Undefined f, st)
         | Inr cur_chunk \<Rightarrow>
             (case write_to_partition S e st cur_chunk (keys_of partitionKeys ! j) of
                (Returned s, st') \<Rightarrow>
                  if ok s then write_partitions S L e c partitionKeys partitionReferences js st'
                  else (Returned s, st')
              | (Undefined f, st') \<Rightarrow> (Undefined f, st')))"

text \<open>
  \<open>send_chunk\<close> from the comment \<open>find partition reference for each row\<close> on, for the
  chunk \<open>c\<close> that is written.
\<close>

definition route_chunk :: "sink \<Rightarrow> stdlib \<Rightarrow> env \<Rightarrow> sink_state \<Rightarrow> chunk \<Rightarrow> outcome \<times> sink_state" where
  "route_chunk S L e st c =
     (let pcs = partitionColumns (t_iceberg_sink S) in
      case bind_partition_columns c (output_slots S) pcs of
        Inl f \<Rightarrow> (Undefined f, st)
      | Inr partition_columns \<Rightarrow>
          (case assign_rows L e partition_columns pcs [0 ..< num_rows c]
                  (empty_vector, replicate (num_rows c) None) of
             Inl r \<Rightarrow> (r, st)
           | Inr (partitionKeys, partitionReferences) \<Rightarrow>
               if length (keys_of partitionKeys) = 1
               then write_to_partition S e st c (keys_of partitionKeys ! 0)
               else write_partitions S L e c partitionKeys partitionReferences
                      [0 ..< length (keys_of partitionKeys)] st))"

text \<open>
  \<open>send_chunk\<close>: the outcome, the new state of the sink, and the caller's chunk as the
  call leaves it.
\<close>

definition send_chunk :: "sink \<Rightarrow> stdlib \<Rightarrow> env \<Rightarrow> sink_state \<Rightarrow> chunk \<Rightarrow> outcome \<times> sink_state \<times> chunk" where
  "send_chunk S L e st c =
     (if num_output_exprs S \<noteq> 0
      then (case project e (output_slots S) [0 ..< num_output_exprs S]
                   \<lparr>columns = [], slot_id_to_index = Map.empty\<rparr> of
              Inl r \<Rightarrow> (r, st, c)
            | Inr output_chunk \<Rightarrow>
                (case route_chunk S L e st output_chunk of (r, st') \<Rightarrow> (r, st', c)))
      else (let c' = reindex_slots (output_slots S) c in
            case route_chunk S L e st c' of (r, st') \<Rightarrow> (r, st', c')))"

subsection \<open>send\_chunk and the chunk objects\<close>

text \<open>
  \<open>send_chunk\<close> receives a pointer to the caller's chunk, and it has chunk objects of
  its own: \<open>_output_chunk\<close> and, for every partition, \<open>_cur_chunk\<close>. To tell what a call
  does to which object, the chunks are put in a store: the list of the objects, an
  object's address being its position. A new object goes behind the last one, and an
  object that is destroyed stays where it is, so that no address is handed out twice.
  A method of \<open>Chunk\<close> that mutates changes the object it is called on:
  \<open>reset_slot_id_to_index\<close>, \<open>set_slot_id_to_index\<close>, \<open>append_column\<close> and
  \<open>append_selective\<close>. Everything else reads: the binding loop, the row loop, and the
  collaborators that are handed a chunk (\<open>evaluate\<close>, \<open>add_chunk\<close>), whose answers are the
  environment's. The functions below are \<open>project\<close>, \<open>write_partitions\<close>, \<open>route_chunk\<close>
  and \<open>send_chunk\<close> with the objects made explicit; \<open>send_chunk\<close> above is
  \<open>send_chunk_at\<close> seen from the caller's chunk (lemma \<open>send_chunk_at_char\<close>).
\<close>

type_synonym store = "chunk list"

text \<open>\<open>std::make_unique\<close> and \<open>clone_empty_with_slot\<close>: the new object's address, and the store with it.\<close>

definition new_object :: "store \<Rightarrow> chunk \<Rightarrow> nat \<times> store" where
  "new_object h c = (length h, h @ [c])"

text \<open>
  \<open>p->reset_slot_id_to_index()\<close> and \<open>p->set_slot_id_to_index(sid, i)\<close>, and the loop of
  \<open>send_chunk\<close> that calls the second for every slot.
\<close>

definition reset_slot_id_to_index :: "store \<Rightarrow> nat \<Rightarrow> store" where
  "reset_slot_id_to_index h p = h[p := (h ! p)\<lparr>slot_id_to_index := Map.empty\<rparr>]"

definition set_slot_id_to_index :: "store \<Rightarrow> nat \<Rightarrow> nat \<Rightarrow> nat \<Rightarrow> store" where
  "set_slot_id_to_index h p sid i = h[p := (h ! p)\<lparr>slot_id_to_index := (slot_id_to_index (h ! p))(sid \<mapsto> i)\<rparr>]"

fun set_slots_at :: "slot list \<Rightarrow> nat \<Rightarrow> store \<Rightarrow> nat \<Rightarrow> store" where
  "set_slots_at [] i h p = h"
| "set_slots_at (s # ss) i h p = set_slots_at ss (Suc i) (set_slot_id_to_index h p (slot_id s) i) p"

text \<open>
  The loop over the output expressions: \<open>out->append_column(column, slot id)\<close> on the
  object \<open>out\<close>. The result is the outcome that ends the call, if the loop ends it, and
  the store.
\<close>

fun project_at :: "env \<Rightarrow> slot list \<Rightarrow> nat list \<Rightarrow> store \<Rightarrow> nat \<Rightarrow> outcome option \<times> store" where
  "project_at e slots [] h out = (None, h)"
| "project_at e slots (i # is) h out =
     (case evaluate e i of
        Inl msg \<Rightarrow> (Some (Returned (Failed msg)), h)
      | Inr col \<Rightarrow>
          (case nth_opt slots i of
             None \<Rightarrow> (Some (Undefined IndexOutOfRange), h)
           | Some s \<Rightarrow> project_at e slots is (h[out := append_column (h ! out) col (slot_id s)]) out))"

text \<open>
  \<open>clone_empty_with_slot\<close>: a chunk with the same slot map and as many columns, all empty.
  \<open>dst->append_selective(*src, select_idx, 0, size)\<close>: the rows of \<open>src\<close> at the selected
  indices are appended to the columns of \<open>dst\<close>, column by column.
\<close>

definition clone_empty_with_slot :: "chunk \<Rightarrow> chunk" where
  "clone_empty_with_slot c = c\<lparr>columns := map (\<lambda>_. []) (columns c)\<rparr>"

definition append_selective_at :: "store \<Rightarrow> nat \<Rightarrow> nat \<Rightarrow> nat list \<Rightarrow> fault + store" where
  "append_selective_at h dst src select_idx =
     (if \<forall>col \<in> set (columns (h ! src)). \<forall>i \<in> set select_idx. i < length col
      then Inr (h[dst := (h ! dst)\<lparr>columns :=
                  map2 (\<lambda>d col. d @ map (\<lambda>i. col ! i) select_idx) (columns (h ! dst)) (columns (h ! src))\<rparr>])
      else Inl IndexOutOfRange)"

text \<open>
  The loop over \<open>partitionKeys\<close>: \<open>_cur_chunk\<close> is a new object, filled from the chunk at
  \<open>p\<close> and handed to \<open>write_to_partition\<close>.
\<close>

fun write_partitions_at :: "sink \<Rightarrow> stdlib \<Rightarrow> env \<Rightarrow> nat \<Rightarrow> key_vector \<Rightarrow> addr option list
    \<Rightarrow> nat list \<Rightarrow> sink_state \<Rightarrow> store \<Rightarrow> outcome \<times> sink_state \<times> store" where
  "write_partitions_at S L e p partitionKeys partitionReferences [] st h = (Returned OK, st, h)"
| "write_partitions_at S L e p partitionKeys partitionReferences (j # js) st h =
     (let partition_ptr = data_ptr L partitionKeys j;
          select_idx = select_rows partitionReferences partition_ptr
      in case new_object h (clone_empty_with_slot (h ! p)) of (cur_chunk, h1) \<Rightarrow>
           (case append_selective_at h1 cur_chunk p select_idx of
              Inl f \<Rightarrow> (Undefined f, st, h1)
            | Inr h2 \<Rightarrow>
                (case write_to_partition S e st (h2 ! cur_chunk) (keys_of partitionKeys ! j) of
                   (Returned s, st') \<Rightarrow>
                     if ok s then write_partitions_at S L e p partitionKeys partitionReferences js st' h2
                     else (Returned s, st', h2)
                 | (Undefined f, st') \<Rightarrow> (Undefined f, st', h2))))"

text \<open>
  \<open>send_chunk\<close> from the comment \<open>find partition reference for each row\<close> on, for the
  chunk at \<open>p\<close>; and \<open>send_chunk\<close>, for the chunk the caller points to.
\<close>

definition route_chunk_at :: "sink \<Rightarrow> stdlib \<Rightarrow> env \<Rightarrow> sink_state \<Rightarrow> store \<Rightarrow> nat
    \<Rightarrow> outcome \<times> sink_state \<times> store" where
  "route_chunk_at S L e st h p =
     (let pcs = partitionColumns (t_iceberg_sink S) in
      case bind_partition_columns (h ! p) (output_slots S) pcs of
        Inl f \<Rightarrow> (Undefined f, st, h)
      | Inr partition_columns \<Rightarrow>
          (case assign_rows L e partition_columns pcs [0 ..< num_rows (h ! p)]
                  (empty_vector, replicate (num_rows (h ! p)) None) of
             Inl r \<Rightarrow> (r, st, h)
           | Inr (partitionKeys, partitionReferences) \<Rightarrow>
               if length (keys_of partitionKeys) = 1
               then (case write_to_partition S e st (h ! p) (keys_of partitionKeys ! 0) of
                       (r, st') \<Rightarrow> (r, st', h))
               else write_partitions_at S L e p partitionKeys partitionReferences
                      [0 ..< length (keys_of partitionKeys)] st h))"

definition send_chunk_at :: "sink \<Rightarrow> stdlib \<Rightarrow> env \<Rightarrow> sink_state \<Rightarrow> store \<Rightarrow> nat
    \<Rightarrow> outcome \<times> sink_state \<times> store" where
  "send_chunk_at S L e st h chunk_ptr =
     (if num_output_exprs S \<noteq> 0
      then (case new_object h \<lparr>columns = [], slot_id_to_index = Map.empty\<rparr> of (output_chunk, h1) \<Rightarrow>
              (case project_at e (output_slots S) [0 ..< num_output_exprs S] h1 output_chunk of
                 (Some r, h2) \<Rightarrow> (r, st, h2)
               | (None, h2) \<Rightarrow> route_chunk_at S L e st h2 output_chunk))
      else route_chunk_at S L e st
             (set_slots_at (output_slots S) 0 (reset_slot_id_to_index h chunk_ptr) chunk_ptr) chunk_ptr)"

subsection \<open>The life of a sink\<close>

text \<open>
  The states a sink can be in when \<open>close\<close> is called: the initial one, and any state a
  \<open>send_chunk\<close> leaves behind, whatever the collaborators answered and whatever it
  returned.
\<close>

inductive reachable :: "sink \<Rightarrow> stdlib \<Rightarrow> sink_state \<Rightarrow> bool" for S :: sink and L :: stdlib where
  reach_init: "reachable S L initial_state"
| reach_send: "reachable S L st \<Longrightarrow> reachable S L (fst (snd (send_chunk S L e st c)))"

definition paths_of :: "(string \<times> writer) list \<Rightarrow> string list" where
  "paths_of m = map (\<lambda>kw. w_path (snd kw)) m"

text \<open>
  What holds of every reachable state: one writer per key, every open writer's path is
  recorded, and every recorded path belongs to an open writer or to a finished one.
\<close>

definition recorded_inv :: "sink_state \<Rightarrow> bool" where
  "recorded_inv st \<longleftrightarrow>
     distinct (map fst (partition_writer_map st))
   \<and> set (paths_of (partition_writer_map st)) \<subseteq> set (export_output_files st)
   \<and> set (export_output_files st) \<subseteq> set (finished_files st) \<union> set (paths_of (partition_writer_map st))"

text \<open>Kinds of events.\<close>

definition is_finish :: "event \<Rightarrow> bool" where
  "is_finish ev = (case ev of EvFinish _ \<Rightarrow> True | _ \<Rightarrow> False)"

definition is_send :: "event \<Rightarrow> bool" where
  "is_send ev = (case ev of EvSend _ \<Rightarrow> True | _ \<Rightarrow> False)"

definition is_reopen :: "event \<Rightarrow> bool" where
  "is_reopen ev = (case ev of EvReopen \<Rightarrow> True | _ \<Rightarrow> False)"

subsection \<open>Notions the properties are stated with\<close>

text \<open>
  The slots whose name is a partition column's source name, and the columns the binding
  loop stores, in the order in which it stores them.
\<close>

definition matching_slots :: "slot list \<Rightarrow> partition_column \<Rightarrow> slot list" where
  "matching_slots slots pc = filter (\<lambda>s. col_name s = columnName pc) slots"

definition bound_columns :: "chunk \<Rightarrow> slot list \<Rightarrow> partition_column list \<Rightarrow> column option list" where
  "bound_columns c slots pcs =
     concat (map (\<lambda>pc. map (\<lambda>s. get_column_by_slot_id c (slot_id s)) (matching_slots slots pc)) pcs)"

text \<open>
  The chunk \<open>send_chunk\<close> goes on with after its first block: the projected chunk, or the
  caller's chunk with its slot map rebuilt.
\<close>

definition routed_chunk :: "sink \<Rightarrow> env \<Rightarrow> chunk \<Rightarrow> outcome + chunk" where
  "routed_chunk S e c =
     (if num_output_exprs S \<noteq> 0
      then project e (output_slots S) [0 ..< num_output_exprs S] \<lparr>columns = [], slot_id_to_index = Map.empty\<rparr>
      else Inr (reindex_slots (output_slots S) c))"

text \<open>The transform of the first partition column that is not a \<open>day\<close> column.\<close>

definition first_unsupported :: "partition_column list \<Rightarrow> string" where
  "first_unsupported pcs = transform (hd (filter (\<lambda>pc. transform pc \<noteq> ''day'') pcs))"

text \<open>
  The partition columns before the first one that is not a \<open>day\<close> column; and the number
  of partition columns, among the first \<open>k\<close>, that no slot is named after.
\<close>

definition day_prefix :: "partition_column list \<Rightarrow> partition_column list" where
  "day_prefix pcs = takeWhile (\<lambda>pc. transform pc = ''day'') pcs"

definition unmatched_before :: "slot list \<Rightarrow> partition_column list \<Rightarrow> nat \<Rightarrow> nat" where
  "unmatched_before slots pcs k = length (filter (\<lambda>pc. matching_slots slots pc = []) (take k pcs))"

text \<open>The objects of \<open>h\<close> are in \<open>h'\<close>, at their addresses and as they were.\<close>

definition untouched :: "store \<Rightarrow> store \<Rightarrow> bool" where
  "untouched h h' \<longleftrightarrow> length h \<le> length h' \<and> take (length h) h' = h"

subsection \<open>Example inputs\<close>

text \<open>
  A standard library as GNU libstdc++ lays strings and vectors out: 15 characters fit
  inside a string object, and a full vector doubles (from 0 to 1).
\<close>

definition libstdcxx :: stdlib where
  "libstdcxx = \<lparr>sso_capacity = 15, grow = (\<lambda>n. n + max n 1)\<rparr>"

text \<open>A table partitioned by the day of its column \<open>ts\<close>, written as ORC, 100 bytes per file.\<close>

definition ex_cfg :: sink_config where
  "ex_cfg = \<lparr>file_name_prefix = Some ''f'', file_format = ''orc'', location = ''s3://t'',
     broker_addresses = [''broker''], bytes_per_file = 100,
     partitionColumns = [\<lparr>columnName = ''ts'', transform = ''day'', partitionName = ''dt''\<rparr>]\<rparr>"

definition ex_sink :: sink where
  "ex_sink = \<lparr>t_iceberg_sink = ex_cfg, output_slots = [\<lparr>slot_id = 1, col_name = ''ts''\<rparr>],
     num_output_exprs = 0\<rparr>"

text \<open>
  Collaborators that always succeed: the clock reads 42, the backend id is 7, files
  start empty and do not grow, and the date text is right for the two days the example chunks use
  (1704067200 is 2024-01-01T00:00:00Z). The writer of the first day is met before that
  of the second, as in a map ordered by its keys.
\<close>

definition ex_env :: env where
  "ex_env = \<lparr>evaluate = (\<lambda>_. Inl ''no expression''), utc_offset = 0,
     day_string = (\<lambda>t. if t div 86400 = 19723 then ''2024-01-01'' else ''2024-01-02''),
     backend_id = 7, UnixMillis = (\<lambda>_. 42),
     new_writable_file = (\<lambda>_. OK), new_file_size = (\<lambda>_. 0), finish = (\<lambda>_. OK),
     add_chunk = (\<lambda>_ _. (OK, 0)),
     connect = OK, addIcebergFiles = (\<lambda>_. Response OK), reopen = (\<lambda>_. OK),
     key_rank = (\<lambda>k. if k = ''dt=2024-01-01/'' then 0 else 1)\<rparr>"

text \<open>
  Chunks of one column, known under slot 1. Three rows: 2024-01-01T00:10,
  2024-01-01T23:50 and 2024-01-02T00:05 (UTC); and two chunks of one row, of the first
  and of the second day.
\<close>

definition ex_chunk :: chunk where
  "ex_chunk = \<lparr>columns = [[1704067800, 1704153000, 1704153900]], slot_id_to_index = [1 \<mapsto> 0]\<rparr>"

definition ex_chunk1 :: chunk where
  "ex_chunk1 = \<lparr>columns = [[1704067800]], slot_id_to_index = [1 \<mapsto> 0]\<rparr>"

definition ex_chunk2 :: chunk where
  "ex_chunk2 = \<lparr>columns = [[1704153900]], slot_id_to_index = [1 \<mapsto> 0]\<rparr>"

text \<open>
  The states after \<open>ex_chunk1\<close> has been sent to a new sink, and after \<open>ex_chunk2\<close> has
  been sent next: one and two open writers, each with its path recorded.
\<close>

definition ex_writer1 :: writer where
  "ex_writer1 = \<lparr>w_path = ''s3://t/data/dt=2024-01-01/f_7_42.orc'', w_size = 0, w_stripe = 100\<rparr>"

definition ex_writer2 :: writer where
  "ex_writer2 = \<lparr>w_path = ''s3://t/data/dt=2024-01-02/f_7_42.orc'', w_size = 0, w_stripe = 100\<rparr>"

definition ex_state1 :: sink_state where
  "ex_state1 = \<lparr>partition_writer_map = [(''dt=2024-01-01/'', ex_writer1)],
     export_output_files = [w_path ex_writer1],
     finished_files = [], add_chunk_log = [(''dt=2024-01-01/'', ex_chunk1)]\<rparr>"

definition ex_state2 :: sink_state where
  "ex_state2 = \<lparr>partition_writer_map = [(''dt=2024-01-01/'', ex_writer1), (''dt=2024-01-02/'', ex_writer2)],
     export_output_files = [w_path ex_writer1, w_path ex_writer2],
     finished_files = [],
     add_chunk_log = [(''dt=2024-01-01/'', ex_chunk1), (''dt=2024-01-02/'', ex_chunk2)]\<rparr>"

text \<open>
  The state after \<open>ex_chunk1\<close> has been sent to a new sink whose builder grew the file by
  100 bytes: the one open writer has reached the budget.
\<close>

definition ex_state_full :: sink_state where
  "ex_state_full = \<lparr>partition_writer_map = [(''dt=2024-01-01/'', ex_writer1\<lparr>w_size := 100\<rparr>)],
     export_output_files = [w_path ex_writer1],
     finished_files = [], add_chunk_log = [(''dt=2024-01-01/'', ex_chunk1)]\<rparr>"

text \<open>
  Variants of the example sink: an \<open>hour\<close> transform; an output tuple without a slot
  named \<open>ts\<close>; and a partition field with a long name, whose keys do not fit into a
  string object.
\<close>

definition ex_sink_hour :: sink where
  "ex_sink_hour = ex_sink\<lparr>t_iceberg_sink := ex_cfg\<lparr>partitionColumns :=
      [\<lparr>columnName = ''ts'', transform = ''hour'', partitionName = ''dt''\<rparr>]\<rparr>\<rparr>"

definition ex_sink_unbound :: sink where
  "ex_sink_unbound = ex_sink\<lparr>output_slots := [\<lparr>slot_id = 1, col_name = ''other''\<rparr>]\<rparr>"

definition ex_sink_long :: sink where
  "ex_sink_long = ex_sink\<lparr>t_iceberg_sink := ex_cfg\<lparr>partitionColumns :=
      [\<lparr>columnName = ''ts'', transform = ''day'', partitionName = ''event_date''\<rparr>]\<rparr>\<rparr>"

text \<open>
  More variants, with two partition columns: a \<open>day\<close> column named after no slot before
  an \<open>hour\<close> column; the column \<open>ts\<close> by day and by hour; and a partition column named
  after no slot before, and behind, the \<open>day\<close> column over \<open>ts\<close>.
\<close>

definition ex_sink_null_hour :: sink where
  "ex_sink_null_hour = ex_sink\<lparr>t_iceberg_sink := ex_cfg\<lparr>partitionColumns :=
      [\<lparr>columnName = ''missing'', transform = ''day'', partitionName = ''dt''\<rparr>,
       \<lparr>columnName = ''absent'', transform = ''hour'', partitionName = ''h''\<rparr>]\<rparr>\<rparr>"

definition ex_sink_day_hour :: sink where
  "ex_sink_day_hour = ex_sink\<lparr>t_iceberg_sink := ex_cfg\<lparr>partitionColumns :=
      [\<lparr>columnName = ''ts'', transform = ''day'', partitionName = ''dt''\<rparr>,
       \<lparr>columnName = ''ts'', transform = ''hour'', partitionName = ''h''\<rparr>]\<rparr>\<rparr>"

definition ex_sink_head_unbound :: sink where
  "ex_sink_head_unbound = ex_sink\<lparr>t_iceberg_sink := ex_cfg\<lparr>partitionColumns :=
      [\<lparr>columnName = ''missing'', transform = ''day'', partitionName = ''m''\<rparr>,
       \<lparr>columnName = ''ts'', transform = ''day'', partitionName = ''dt''\<rparr>]\<rparr>\<rparr>"

definition ex_sink_tail_unbound :: sink where
  "ex_sink_tail_unbound = ex_sink\<lparr>t_iceberg_sink := ex_cfg\<lparr>partitionColumns :=
      [\<lparr>columnName = ''ts'', transform = ''day'', partitionName = ''dt''\<rparr>,
       \<lparr>columnName = ''missing'', transform = ''day'', partitionName = ''m''\<rparr>]\<rparr>\<rparr>"

text \<open>
  Two slots named \<open>ts\<close>, with the day column over \<open>ts\<close> in front of a partition column
  named after no slot, and with the one \<open>hour\<close> column over \<open>ts\<close>; and a chunk of two
  columns of one row.
\<close>

definition ex_sink_twice :: sink where
  "ex_sink_twice = ex_sink\<lparr>t_iceberg_sink := ex_cfg\<lparr>partitionColumns :=
      [\<lparr>columnName = ''ts'', transform = ''day'', partitionName = ''dt''\<rparr>,
       \<lparr>columnName = ''missing'', transform = ''day'', partitionName = ''m''\<rparr>]\<rparr>,
     output_slots := [\<lparr>slot_id = 1, col_name = ''ts''\<rparr>, \<lparr>slot_id = 2, col_name = ''ts''\<rparr>]\<rparr>"

definition ex_sink_twice_hour :: sink where
  "ex_sink_twice_hour = ex_sink_hour\<lparr>output_slots :=
      [\<lparr>slot_id = 1, col_name = ''ts''\<rparr>, \<lparr>slot_id = 2, col_name = ''ts''\<rparr>]\<rparr>"

definition ex_chunk_two :: chunk where
  "ex_chunk_two = \<lparr>columns = [[1704067800], [1704067800]], slot_id_to_index = [1 \<mapsto> 0, 2 \<mapsto> 1]\<rparr>"

text \<open>The example sink with one output expression, which evaluates to a column of one row.\<close>

definition ex_sink_exprs :: sink where
  "ex_sink_exprs = ex_sink\<lparr>num_output_exprs := 1\<rparr>"

definition ex_env_exprs :: env where
  "ex_env_exprs = ex_env\<lparr>evaluate := (\<lambda>_. Inr [1704067800])\<rparr>"

text \<open>A chunk of one column without rows.\<close>

definition ex_chunk0 :: chunk where
  "ex_chunk0 = \<lparr>columns = [[]], slot_id_to_index = [1 \<mapsto> 0]\<rparr>"

text \<open>
  What the row loop leaves behind for \<open>ex_chunk\<close>, for a vector of capacity \<open>n\<close>: the two
  keys in the vector's second buffer, and the three rows' references, of which the
  first two point into the first buffer. And the state in which the first partition
  has received a chunk without rows.
\<close>

definition ex_keys :: "nat \<Rightarrow> key_vector" where
  "ex_keys n = \<lparr>kv_items = [(''dt=2024-01-01/'', 0), (''dt=2024-01-02/'', 1)],
                kv_capacity = n, kv_buffer = 2, kv_blocks = 2\<rparr>"

definition ex_refs :: "addr option list" where
  "ex_refs = [Some (Inline 1 0), Some (Inline 1 0), Some (Inline 2 1)]"

definition ex_state_dropped :: sink_state where
  "ex_state_dropped = \<lparr>partition_writer_map = [(''dt=2024-01-01/'', ex_writer1), (''dt=2024-01-02/'', ex_writer2)],
     export_output_files = [w_path ex_writer1, w_path ex_writer2],
     finished_files = [],
     add_chunk_log = [(''dt=2024-01-01/'', ex_chunk0), (''dt=2024-01-02/'', ex_chunk2)]\<rparr>"

section \<open>Properties\<close>

subsection \<open>Evaluating the examples\<close>

lemmas route_defs = route_chunk_def bind_partition_columns_def get_column_by_slot_id_def nth_opt_def num_rows_def
    empty_vector_def keys_of_def emplace_back_def data_ptr_def select_rows_def append_selective_def Let_def

lemmas write_defs = write_to_partition_def prepare_partition_writer_def create_writer_def gen_file_name_def
    orc_file_name_def file_path_of_def
    map_insert_def map_erase_def writer_add_chunk_def ok_def dec_int_def dec_nat.simps digit_char_def stripe_size_of.simps

lemmas ex_defs = ex_sink_def ex_cfg_def ex_env_def libstdcxx_def

lemma send_ex1:
  "send_chunk ex_sink libstdcxx ex_env initial_state ex_chunk1 = (Returned OK, ex_state1, ex_chunk1)"
  by (simp add: send_chunk_def reindex_slots_def route_defs write_defs ex_defs ex_chunk1_def
        initial_state_def ex_state1_def ex_writer1_def)

lemma send_ex2:
  "send_chunk ex_sink libstdcxx ex_env ex_state1 ex_chunk2 = (Returned OK, ex_state2, ex_chunk2)"
  by (simp add: send_chunk_def reindex_slots_def route_defs write_defs ex_defs ex_chunk1_def ex_chunk2_def
        ex_state1_def ex_state2_def ex_writer1_def ex_writer2_def)

lemma reachable_ex_state1: "reachable ex_sink libstdcxx ex_state1"
  using reach_send [OF reach_init, of ex_sink libstdcxx ex_env ex_chunk1] by (simp add: send_ex1)

lemma reachable_ex_state2: "reachable ex_sink libstdcxx ex_state2"
  using reach_send [OF reachable_ex_state1, of ex_env ex_chunk2] by (simp add: send_ex2)

lemmas send_defs = send_chunk_def reindex_slots_def route_defs write_defs ex_defs

lemma send_ex_full:
  "send_chunk ex_sink libstdcxx (ex_env\<lparr>add_chunk := (\<lambda>_ _. (OK, 100))\<rparr>) initial_state ex_chunk1
     = (Returned OK, ex_state_full, ex_chunk1)"
  by (simp add: send_defs ex_chunk1_def initial_state_def ex_state_full_def ex_writer1_def)

subsection \<open>What every reachable state satisfies\<close>

lemma recorded_inv_initial: "recorded_inv initial_state"
  by (simp add: recorded_inv_def initial_state_def paths_of_def)

lemma map_of_map_erase: "map_of (map_erase m k) k = None"
  by (induction m) (auto simp: map_erase_def)

lemma paths_of_map_erase: "set (paths_of (map_erase m k)) \<subseteq> set (paths_of m)"
  by (auto simp: map_erase_def paths_of_def)

lemma distinct_map_erase: "distinct (map fst m) \<Longrightarrow> distinct (map fst (map_erase m k))"
  by (simp add: map_erase_def distinct_map_filter)

lemma paths_of_map_erase_found:
  "distinct (map fst m) \<Longrightarrow> map_of m k = Some w \<Longrightarrow>
   set (paths_of m) \<subseteq> insert (w_path w) (set (paths_of (map_erase m k)))"
proof (induction m)
  case Nil
  then show ?case by simp
next
  case (Cons a m)
  show ?case
  proof (cases "fst a = k")
    case True
    then have "snd a = w" using Cons.prems by (cases a) auto
    moreover have "k \<notin> fst ` set m"
      using True Cons.prems(1) by simp
    then have "\<forall>x \<in> set m. fst x \<noteq> k"
      by blast
    then have "map_erase (a # m) k = m"
      using True by (simp add: map_erase_def filter_id_conv)
    ultimately show ?thesis by (auto simp: paths_of_def)
  next
    case False
    then have "map_of m k = Some w" using Cons.prems by (cases a) auto
    then have "set (paths_of m) \<subseteq> insert (w_path w) (set (paths_of (map_erase m k)))"
      using Cons.IH Cons.prems(1) by simp
    then show ?thesis using False by (auto simp: paths_of_def map_erase_def)
  qed
qed

lemma create_writer_inv:
  assumes "create_writer S e st k = (r, st')"
      and "recorded_inv st" and "map_of (partition_writer_map st) k = None"
  shows "recorded_inv st'"
proof -
  have "k \<notin> fst ` set (partition_writer_map st)"
    using assms(3) by (simp add: map_of_eq_None_iff)
  then show ?thesis
    using assms
    by (fastforce simp: create_writer_def recorded_inv_def map_insert_def paths_of_def Let_def
                   image_subset_iff
             split: sum.splits if_splits)
qed

lemma prepare_partition_writer_inv:
  assumes "prepare_partition_writer S e st k = (r, st')" and "recorded_inv st"
  shows "recorded_inv st'"
proof (cases "map_of (partition_writer_map st) k")
  case None
  then show ?thesis using assms by (auto simp: prepare_partition_writer_def intro: create_writer_inv)
next
  case (Some w)
  let ?st1 = "st\<lparr>partition_writer_map := map_erase (partition_writer_map st) k,
                  finished_files := finished_files st @ [w_path w]\<rparr>"
  have d: "distinct (map fst (partition_writer_map st))"
    using assms(2) by (simp add: recorded_inv_def)
  have "recorded_inv ?st1"
    using assms(2) paths_of_map_erase [of "partition_writer_map st" k]
      paths_of_map_erase_found [OF d Some] distinct_map_erase [OF d, of k]
    by (auto simp: recorded_inv_def)
  moreover have "map_of (partition_writer_map ?st1) k = None"
    by (simp add: map_of_map_erase)
  ultimately have "recorded_inv (snd (create_writer S e ?st1 k))"
    using create_writer_inv [of S e ?st1 k] by (cases "create_writer S e ?st1 k") auto
  then show ?thesis
    using assms Some by (auto simp: prepare_partition_writer_def split: if_splits)
qed

lemma paths_of_add_chunk:
  "paths_of (map (\<lambda>kw. if fst kw = k then (fst kw, (snd kw)\<lparr>w_size := w_size (snd kw) + g\<rparr>) else kw) m)
   = paths_of m"
  by (induction m) (auto simp: paths_of_def)

lemma keys_add_chunk:
  "map (fst \<circ> (\<lambda>kw. if fst kw = k then (fst kw, (snd kw)\<lparr>w_size := w_size (snd kw) + g\<rparr>) else kw)) m
   = map fst m"
  by (induction m) auto

lemma writer_add_chunk_inv:
  "writer_add_chunk e st k c = (r, st') \<Longrightarrow> recorded_inv st \<Longrightarrow> recorded_inv st'"
  by (auto simp: writer_add_chunk_def recorded_inv_def paths_of_add_chunk keys_add_chunk
           split: prod.splits)

lemma write_to_partition_inv:
  assumes "write_to_partition S e st c k = (r, st')" and "recorded_inv st"
  shows "recorded_inv st'"
proof -
  obtain s st1 where p: "prepare_partition_writer S e st k = (s, st1)"
    by (cases "prepare_partition_writer S e st k") auto
  then have "recorded_inv st1"
    using assms(2) by (rule prepare_partition_writer_inv)
  then show ?thesis
    using assms(1) p
    by (auto simp: write_to_partition_def split: if_splits option.splits prod.splits
             dest: writer_add_chunk_inv)
qed

lemma write_partitions_inv:
  "write_partitions S L e c kv refs js st = (r, st') \<Longrightarrow> recorded_inv st \<Longrightarrow> recorded_inv st'"
proof (induction js arbitrary: st)
  case Nil
  then show ?case by simp
next
  case (Cons j js)
  show ?case
  proof (cases "append_selective c (select_rows refs (data_ptr L kv j))")
    case (Inl f)
    then show ?thesis using Cons.prems by (simp add: Let_def)
  next
    case (Inr cur)
    obtain r1 st1 where w: "write_to_partition S e st cur (keys_of kv ! j) = (r1, st1)"
      by (cases "write_to_partition S e st cur (keys_of kv ! j)") auto
    then have i1: "recorded_inv st1"
      using Cons.prems(2) by (rule write_to_partition_inv)
    show ?thesis
      using Cons.prems(1) Inr w i1 Cons.IH [of st1]
      by (cases r1) (auto simp: Let_def split: if_splits)
  qed
qed

lemma route_chunk_inv:
  "route_chunk S L e st c = (r, st') \<Longrightarrow> recorded_inv st \<Longrightarrow> recorded_inv st'"
  by (auto simp: route_chunk_def Let_def split: sum.splits prod.splits if_splits
           dest: write_to_partition_inv write_partitions_inv)

lemma send_chunk_inv:
  "recorded_inv st \<Longrightarrow> recorded_inv (fst (snd (send_chunk S L e st c)))"
  by (auto simp: send_chunk_def Let_def split: sum.splits prod.splits
           dest: route_chunk_inv)

lemma reachable_inv: "reachable S L st \<Longrightarrow> recorded_inv st"
  by (induction rule: reachable.induct) (auto simp: recorded_inv_initial send_chunk_inv)

subsection \<open>The finalization loop\<close>

text \<open>
  The traversal meets every entry once, whatever the rank; and every order of the
  entries is the traversal of some rank, so that the rank puts no limit on the
  container. With the example environment the writer of the first day comes first,
  whichever was made first.
\<close>

lemma distinct_iteration_order: "distinct (map fst (iteration_order e m)) = distinct (map fst m)"
  by (simp add: iteration_order_def distinct_map)

lemma find_pos_nth:
  "distinct xs \<Longrightarrow> i < length xs \<Longrightarrow> find_pos xs (xs ! i) = i"
proof (induction xs arbitrary: i)
  case Nil
  then show ?case by simp
next
  case (Cons x xs)
  show ?case
  proof (cases i)
    case 0
    then show ?thesis by simp
  next
    case (Suc j)
    then have "xs ! j \<in> set xs" using Cons.prems(2) by simp
    then have "x \<noteq> xs ! j" using Cons.prems(1) by auto
    then show ?thesis using Suc Cons by simp
  qed
qed

lemma iteration_order_any:
  assumes d: "distinct (map fst m)" and d': "distinct (map fst m')" and s: "set m' = set m"
  shows "iteration_order (e\<lparr>key_rank := find_pos (map fst m')\<rparr>) m = m'"
proof -
  define f where "f = (\<lambda>kw :: string \<times> writer. find_pos (map fst m') (fst kw))"
  have io: "iteration_order (e\<lparr>key_rank := find_pos (map fst m')\<rparr>) m = sort_key f m"
    by (simp add: iteration_order_def f_def)
  have pos: "f (m' ! i) = i" if "i < length m'" for i
    using find_pos_nth [OF d', of i] that by (simp add: f_def)
  have m': "map f m' = [0 ..< length m']"
    by (rule nth_equalityI) (simp_all add: pos)
  have inj: "inj_on f (set m')"
  proof (rule inj_onI)
    fix a b
    assume a: "a \<in> set m'" and b: "b \<in> set m'" and ab: "f a = f b"
    obtain i where i: "i < length m'" "m' ! i = a" using a by (auto simp: in_set_conv_nth)
    obtain j where j: "j < length m'" "m' ! j = b" using b by (auto simp: in_set_conv_nth)
    have "i = j" using pos [OF i(1)] pos [OF j(1)] i j ab by simp
    then show "a = b" using i j by simp
  qed
  have dm: "distinct m" using d by (simp add: distinct_map)
  have "distinct (map f (sort_key f m))"
    using dm inj s by (simp add: distinct_map)
  moreover have "sorted (map f (sort_key f m))"
    by (rule sorted_sort_key)
  moreover have "set (map f (sort_key f m)) = set [0 ..< length m']"
    using s by (simp flip: m')
  ultimately have "map f (sort_key f m) = [0 ..< length m']"
    by (intro sorted_distinct_set_unique) simp_all
  then have "map f (sort_key f m) = map f m'"
    by (simp add: m')
  moreover have "inj_on f (set (sort_key f m) \<union> set m')"
    using inj s by simp
  ultimately have "sort_key f m = m'"
    by (simp add: inj_on_map_eq_map)
  then show ?thesis by (simp add: io)
qed

lemma iteration_order_ex:
  "iteration_order ex_env [(''dt=2024-01-02/'', ex_writer2), (''dt=2024-01-01/'', ex_writer1)]
     = [(''dt=2024-01-01/'', ex_writer1), (''dt=2024-01-02/'', ex_writer2)]"
  by (simp add: iteration_order_def ex_env_def)

lemma set_iteration_order: "set (iteration_order e m) = set m"
  by (simp add: iteration_order_def)

lemma paths_of_iteration_order: "set (paths_of (iteration_order e m)) = set (paths_of m)"
  by (simp add: paths_of_def set_iteration_order)

lemma finish_writers_all_ok:
  "\<forall>kw \<in> set ws. ok (finish e (fst kw)) \<Longrightarrow>
   finish_writers e ws = (OK, map (\<lambda>kw. EvFinish (fst kw)) ws, map (\<lambda>kw. w_path (snd kw)) ws)"
  by (induction ws) auto



lemma finish_writers_only_finish: "\<forall>ev \<in> set (fst (snd (finish_writers e ws))). is_finish ev"
  by (induction ws) (auto simp: is_finish_def split: prod.splits if_splits)



subsection \<open>The commit\<close>

text \<open>
  C2, as the code has it. \<open>close\<close> has finished its writers and has files to report, and
  the connection is made. If the first \<open>addIcebergFiles\<close> throws a
  \<open>TTransportException\<close>, \<open>reopen\<close> is called; if \<open>reopen\<close> returns OK, the same request is
  sent once more and never again (what follows the second send holds no send); if
  \<open>reopen\<close> fails, its status is returned and the request is not sent again. A transport
  failure followed by a successful second attempt gives OK after exactly two sends and
  one reopen. A response, whatever its status, is returned with no retry.
\<close>

theorem commit_retry_once:
  assumes fin: "finish_writers e (iteration_order e (partition_writer_map st)) = (OK, fevs, fin)"
      and files: "export_output_files st \<noteq> []"
      and conn: "ok (connect e)"
  shows "(addIcebergFiles e 0 = Throw_TTransportException \<and> ok (reopen e 0) \<longrightarrow>
            (\<exists>rest. fst (snd (close e st x))
                 = fevs @ [EvConnect, EvSend (export_output_files st), EvReopen,
                           EvSend (export_output_files st)] @ rest
               \<and> (\<forall>ev \<in> set rest. \<not> is_send ev)))
       \<and> (addIcebergFiles e 0 = Throw_TTransportException \<and> \<not> ok (reopen e 0) \<longrightarrow>
            close e st x = (reopen e 0, fevs @ [EvConnect, EvSend (export_output_files st), EvReopen],
                            st\<lparr>finished_files := finished_files st @ fin\<rparr>))
       \<and> (addIcebergFiles e 0 = Throw_TTransportException \<and> ok (reopen e 0)
            \<and> addIcebergFiles e 1 = Response OK \<longrightarrow>
            close e st x = (OK, fevs @ [EvConnect, EvSend (export_output_files st), EvReopen,
                                        EvSend (export_output_files st)],
                            st\<lparr>finished_files := finished_files st @ fin\<rparr>))
       \<and> (\<forall>r. addIcebergFiles e 0 = Response r \<longrightarrow>
            close e st x = (r, fevs @ [EvConnect, EvSend (export_output_files st)],
                            st\<lparr>finished_files := finished_files st @ fin\<rparr>))"
  using assms
  by (auto simp: close_def commit_def Let_def ok_def is_send_def split: rpc_outcome.splits)

text \<open>
  One transport failure, then success: OK, two sends of the same file list, one reopen.
\<close>

theorem commit_retry_once_witness:
  "finish_writers (ex_env\<lparr>addIcebergFiles := (\<lambda>n. if n = 0 then Throw_TTransportException else Response OK)\<rparr>)
      (iteration_order
         (ex_env\<lparr>addIcebergFiles := (\<lambda>n. if n = 0 then Throw_TTransportException else Response OK)\<rparr>)
         (partition_writer_map ex_state1))
     = (OK, [EvFinish ''dt=2024-01-01/''], [w_path ex_writer1])
   \<and> export_output_files ex_state1 \<noteq> []
   \<and> ok (connect (ex_env\<lparr>addIcebergFiles := (\<lambda>n. if n = 0 then Throw_TTransportException else Response OK)\<rparr>))
   \<and> close (ex_env\<lparr>addIcebergFiles := (\<lambda>n. if n = 0 then Throw_TTransportException else Response OK)\<rparr>)
        ex_state1 OK
      = (OK, [EvFinish ''dt=2024-01-01/''] @
             [EvConnect, EvSend (export_output_files ex_state1), EvReopen,
              EvSend (export_output_files ex_state1)],
         ex_state1\<lparr>finished_files := finished_files ex_state1 @ [w_path ex_writer1]\<rparr>)"
proof -
  let ?e = "ex_env\<lparr>addIcebergFiles := (\<lambda>n. if n = 0 then Throw_TTransportException else Response OK)\<rparr>"
  have a: "finish_writers ?e (iteration_order ?e (partition_writer_map ex_state1))
      = (OK, [EvFinish ''dt=2024-01-01/''], [w_path ex_writer1])"
    by (simp add: ex_state1_def ex_env_def ok_def iteration_order_def)
  have b: "export_output_files ex_state1 \<noteq> []"
    by (simp add: ex_state1_def)
  have c: "ok (connect ?e)"
    by (simp add: ex_env_def ok_def)
  have d: "addIcebergFiles ?e 0 = Throw_TTransportException \<and> ok (reopen ?e 0)
           \<and> addIcebergFiles ?e 1 = Response OK"
    by (simp add: ex_env_def ok_def)
  show ?thesis
    using commit_retry_once [OF a b c, of OK] a b c d by blast
qed

text \<open>
  C2 as stated fails when the reopen itself fails: the first send throws a
  \<open>TTransportException\<close>, \<open>reopen\<close> returns an error, and \<open>close\<close> returns that error with
  the request sent once, not twice.
\<close>

theorem commit_retry_counterexample:
  "addIcebergFiles (ex_env\<lparr>addIcebergFiles := (\<lambda>n. Throw_TTransportException),
                            reopen := (\<lambda>n. Failed ''connection refused'')\<rparr>) 0
      = Throw_TTransportException
   \<and> close (ex_env\<lparr>addIcebergFiles := (\<lambda>n. Throw_TTransportException),
                    reopen := (\<lambda>n. Failed ''connection refused'')\<rparr>) ex_state1 OK
      = (Failed ''connection refused'',
         [EvFinish ''dt=2024-01-01/'', EvConnect, EvSend (export_output_files ex_state1), EvReopen],
         ex_state1\<lparr>finished_files := [w_path ex_writer1]\<rparr>)
   \<and> length (filter is_send (fst (snd (close (ex_env\<lparr>addIcebergFiles := (\<lambda>n. Throw_TTransportException),
                    reopen := (\<lambda>n. Failed ''connection refused'')\<rparr>) ex_state1 OK)))) = 1"
  by (simp add: close_def commit_def ex_state1_def ex_env_def ok_def is_send_def Let_def
        iteration_order_def)

subsection \<open>When close commits\<close>

lemma commit_starts_connect: "\<exists>rest. snd (commit e files) = EvConnect # rest"
  by (auto simp: commit_def split: rpc_outcome.splits)

lemma commit_sends_files: "EvSend fs \<in> set (snd (commit e files)) \<Longrightarrow> fs = files"
  by (auto simp: commit_def split: rpc_outcome.splits if_splits)

lemma finish_writers_ok_done:
  "finish_writers e ws = (fs, evs, fin) \<Longrightarrow> ok fs \<Longrightarrow> fin = paths_of ws"
  by (induction ws arbitrary: fs evs fin)
     (auto simp: paths_of_def split: if_splits prod.splits)

lemma finish_events_not_network:
  "finish_writers e ws = (fs, evs, fin) \<Longrightarrow> EvConnect \<notin> set evs \<and> EvSend files \<notin> set evs"
  using finish_writers_only_finish [of e ws] by (auto simp: is_finish_def)

lemma no_files_no_writers:
  assumes "recorded_inv st" and "export_output_files st = []"
  shows "partition_writer_map st = []"
  using assms by (simp add: recorded_inv_def paths_of_def)

text \<open>
  C6, as the code has it. For every state a sink can reach: with no recorded path \<open>close\<close>
  returns OK and does nothing at all (no finish, no connect, no send); a commit is
  attempted only if a path is recorded; if every writer finishes with OK and a path is
  recorded, the commit is attempted; and the upstream status passed to \<open>close\<close> changes
  nothing.
\<close>

theorem commit_iff_files_after_finalization:
  assumes "reachable S L st"
  shows "(export_output_files st = [] \<longrightarrow> close e st x = (OK, [], st))
       \<and> (EvConnect \<in> set (fst (snd (close e st x))) \<longrightarrow> export_output_files st \<noteq> [])
       \<and> ((\<forall>kw \<in> set (partition_writer_map st). ok (finish e (fst kw))) \<and> export_output_files st \<noteq> []
            \<longrightarrow> EvConnect \<in> set (fst (snd (close e st x))))
       \<and> close e st x = close e st y"
proof (intro conjI impI)
  have inv: "recorded_inv st" using assms by (rule reachable_inv)
  show "close e st x = (OK, [], st)" if "export_output_files st = []"
  proof -
    have "partition_writer_map st = []" using inv that by (rule no_files_no_writers)
    then show ?thesis using that by (simp add: close_def iteration_order_def)
  qed
  obtain fs evs fin where fw: "finish_writers e (iteration_order e (partition_writer_map st)) = (fs, evs, fin)"
    by (cases "finish_writers e (iteration_order e (partition_writer_map st))") auto
  have nn: "EvConnect \<notin> set evs"
    using finish_events_not_network [OF fw] by simp
  show "export_output_files st \<noteq> []" if "EvConnect \<in> set (fst (snd (close e st x)))"
    using that nn by (auto simp: close_def fw Let_def split: if_splits prod.splits)
  show "EvConnect \<in> set (fst (snd (close e st x)))"
    if "(\<forall>kw \<in> set (partition_writer_map st). ok (finish e (fst kw))) \<and> export_output_files st \<noteq> []"
  proof -
    have "fs = OK"
      using that finish_writers_all_ok [of "iteration_order e (partition_writer_map st)" e] fw
      by (simp add: set_iteration_order)
    moreover obtain rest where "snd (commit e (export_output_files st)) = EvConnect # rest"
      using commit_starts_connect by blast
    ultimately show ?thesis
      using that by (auto simp: close_def fw Let_def ok_def split: prod.splits)
  qed
  show "close e st x = close e st y"
    by (simp add: close_def)
qed

theorem commit_iff_files_after_finalization_witness:
  "reachable ex_sink libstdcxx initial_state \<and> export_output_files initial_state = []
   \<and> close ex_env initial_state (Failed ''upstream'') = (OK, [], initial_state)
   \<and> reachable ex_sink libstdcxx ex_state1
   \<and> list_all (\<lambda>kw. ok (finish ex_env (fst kw))) (partition_writer_map ex_state1)
   \<and> export_output_files ex_state1 \<noteq> []
   \<and> EvConnect \<in> set (fst (snd (close ex_env ex_state1 OK)))
   \<and> close ex_env ex_state1 OK = close ex_env ex_state1 (Failed ''upstream'')"
proof -
  have a: "export_output_files initial_state = []"
    by (simp add: initial_state_def)
  have b: "(\<forall>kw \<in> set (partition_writer_map ex_state1). ok (finish ex_env (fst kw)))
           \<and> export_output_files ex_state1 \<noteq> []"
    by (simp add: ex_state1_def ex_env_def ok_def)
  show ?thesis
    using commit_iff_files_after_finalization
            [OF reach_init [of ex_sink libstdcxx],
             where e = ex_env and x = "Failed ''upstream''" and y = OK]
          commit_iff_files_after_finalization
            [OF reachable_ex_state1, where e = ex_env and x = OK and y = "Failed ''upstream''"]
          a b reach_init [of ex_sink libstdcxx] reachable_ex_state1
    unfolding list_all_iff by blast
qed

text \<open>
  C6 as stated fails when a writer cannot be finished: after \<open>ex_chunk1\<close> has been sent
  a path is recorded, yet \<open>close\<close> returns the failure of \<open>finish\<close> and attempts no commit.
\<close>

theorem commit_iff_files_counterexample:
  "fst (snd (send_chunk ex_sink libstdcxx ex_env initial_state ex_chunk1)) = ex_state1
   \<and> export_output_files ex_state1 = [''s3://t/data/dt=2024-01-01/f_7_42.orc'']
   \<and> close (ex_env\<lparr>finish := (\<lambda>k. Failed ''io'')\<rparr>) ex_state1 OK
        = (Failed ''io'', [EvFinish ''dt=2024-01-01/''], ex_state1)
   \<and> EvConnect \<notin> set (fst (snd (close (ex_env\<lparr>finish := (\<lambda>k. Failed ''io'')\<rparr>) ex_state1 OK)))"
proof -
  have "close (ex_env\<lparr>finish := (\<lambda>k. Failed ''io'')\<rparr>) ex_state1 OK
        = (Failed ''io'', [EvFinish ''dt=2024-01-01/''], ex_state1)"
    by (simp add: close_def ex_state1_def ok_def iteration_order_def)
  then show ?thesis
    by (simp add: send_ex1) (simp add: ex_state1_def ex_writer1_def)
qed

subsection \<open>When a path is recorded\<close>

text \<open>
  C4, as the code has it. A path is recorded when its writer is created: in every
  reachable state the path of every open writer is already in the list. When \<open>close\<close>
  sends the commit request, the request holds exactly the recorded list, and every path
  in it belongs to a writer whose \<open>finish()\<close> has returned OK.
\<close>

theorem paths_finished_at_commit:
  assumes "reachable S L st"
  shows "set (paths_of (partition_writer_map st)) \<subseteq> set (export_output_files st)
       \<and> (\<forall>files. EvSend files \<in> set (fst (snd (close e st x))) \<longrightarrow>
             files = export_output_files st
           \<and> set files \<subseteq> set (finished_files (snd (snd (close e st x)))))"
proof (intro conjI allI impI)
  have inv: "recorded_inv st" using assms by (rule reachable_inv)
  then show "set (paths_of (partition_writer_map st)) \<subseteq> set (export_output_files st)"
    by (simp add: recorded_inv_def)
  fix files
  assume snd: "EvSend files \<in> set (fst (snd (close e st x)))"
  obtain fs evs fin where fw: "finish_writers e (iteration_order e (partition_writer_map st)) = (fs, evs, fin)"
    by (cases "finish_writers e (iteration_order e (partition_writer_map st))") auto
  have nn: "EvSend files \<notin> set evs"
    using finish_events_not_network [OF fw] by simp
  obtain cs cevs where cm: "commit e (export_output_files st) = (cs, cevs)"
    by (cases "commit e (export_output_files st)") auto
  have okfs: "ok fs" and incm: "EvSend files \<in> set cevs"
    using snd nn by (auto simp: close_def fw cm Let_def split: if_splits)
  have st': "snd (snd (close e st x)) = st\<lparr>finished_files := finished_files st @ fin\<rparr>"
    by (auto simp: close_def fw cm Let_def)
  have "fin = paths_of (iteration_order e (partition_writer_map st))"
    using fw okfs by (rule finish_writers_ok_done)
  then have fin: "set fin = set (paths_of (partition_writer_map st))"
    by (simp add: paths_of_iteration_order)
  show "files = export_output_files st"
    using incm cm commit_sends_files [of files e "export_output_files st"] by simp
  then show "set files \<subseteq> set (finished_files (snd (snd (close e st x))))"
    using inv fin by (auto simp: st' recorded_inv_def)
qed

theorem paths_finished_at_commit_witness:
  "reachable ex_sink libstdcxx ex_state1
   \<and> EvSend [''s3://t/data/dt=2024-01-01/f_7_42.orc''] \<in> set (fst (snd (close ex_env ex_state1 OK)))
   \<and> [''s3://t/data/dt=2024-01-01/f_7_42.orc''] = export_output_files ex_state1
   \<and> set [''s3://t/data/dt=2024-01-01/f_7_42.orc'']
        \<subseteq> set (finished_files (snd (snd (close ex_env ex_state1 OK))))"
proof -
  have a: "EvSend [''s3://t/data/dt=2024-01-01/f_7_42.orc''] \<in> set (fst (snd (close ex_env ex_state1 OK)))"
    by (simp add: close_def commit_def ex_state1_def ex_writer1_def ex_env_def ok_def
          iteration_order_def)
  show ?thesis
    using paths_finished_at_commit [OF reachable_ex_state1, where e = ex_env and x = OK] a
      reachable_ex_state1
    by blast
qed

text \<open>
  C4 as stated fails right after the first chunk has been sent: the path of the new file
  is in the list although its writer is still open and has not been finished.
\<close>

theorem paths_finished_counterexample:
  "export_output_files (fst (snd (send_chunk ex_sink libstdcxx ex_env initial_state ex_chunk1)))
     = [''s3://t/data/dt=2024-01-01/f_7_42.orc'']
   \<and> finished_files (fst (snd (send_chunk ex_sink libstdcxx ex_env initial_state ex_chunk1))) = []
   \<and> map_option w_path
        (map_of (partition_writer_map (fst (snd (send_chunk ex_sink libstdcxx ex_env initial_state ex_chunk1))))
           ''dt=2024-01-01/'')
     = Some ''s3://t/data/dt=2024-01-01/f_7_42.orc''"
  by (simp add: send_ex1 ex_state1_def ex_writer1_def)

subsection \<open>File names are injective in the clock\<close>

lemma digit_char_inj: "a < 10 \<Longrightarrow> b < 10 \<Longrightarrow> digit_char a = digit_char b \<Longrightarrow> a = b"
proof -
  assume a: "a < 10" and b: "b < 10" and eq: "digit_char a = digit_char b"
  have d: "distinct ''0123456789''" by simp
  have "a < length ''0123456789''" "b < length ''0123456789''" using a b by simp_all
  then show "a = b"
    using eq d unfolding digit_char_def by (simp only: nth_eq_iff_index_eq)
qed

lemma digit_char_not_minus: "d < 10 \<Longrightarrow> digit_char d \<noteq> CHR ''-''"
proof -
  assume "d < 10"
  then have "d < length ''0123456789''" by simp
  then have "digit_char d \<in> set ''0123456789''"
    unfolding digit_char_def by (rule nth_mem)
  then show ?thesis by auto
qed

lemma dec_nat_nonempty: "dec_nat n \<noteq> []"
  by (subst dec_nat.simps) simp

lemma dec_nat_inj: "dec_nat n = dec_nat m \<Longrightarrow> n = m"
proof (induction n arbitrary: m rule: dec_nat.induct)
  case (1 n)
  show ?case
  proof (cases "n < 10")
    case True
    then have n: "dec_nat n = [digit_char n]" by (subst dec_nat.simps) simp
    show ?thesis
    proof (cases "m < 10")
      case mt: True
      then have "dec_nat m = [digit_char m]" by (subst dec_nat.simps) simp
      then show ?thesis using n "1.prems" True mt digit_char_inj by simp
    next
      case False
      then have "dec_nat m = dec_nat (m div 10) @ [digit_char (m mod 10)]"
        by (subst dec_nat.simps) simp
      then show ?thesis using n "1.prems" dec_nat_nonempty [of "m div 10"] by simp
    qed
  next
    case False
    then have n: "dec_nat n = dec_nat (n div 10) @ [digit_char (n mod 10)]"
      by (subst dec_nat.simps) simp
    show ?thesis
    proof (cases "m < 10")
      case True
      then have "dec_nat m = [digit_char m]" by (subst dec_nat.simps) simp
      then show ?thesis using n "1.prems" dec_nat_nonempty [of "n div 10"] by simp
    next
      case mf: False
      then have "dec_nat m = dec_nat (m div 10) @ [digit_char (m mod 10)]"
        by (subst dec_nat.simps) simp
      then have "dec_nat (n div 10) = dec_nat (m div 10)" and "digit_char (n mod 10) = digit_char (m mod 10)"
        using n "1.prems" by simp_all
      then have "n div 10 = m div 10" and "n mod 10 = m mod 10"
        using "1.IH" [OF False] digit_char_inj [of "n mod 10" "m mod 10"] by simp_all
      then show ?thesis by (metis div_mult_mod_eq)
    qed
  qed
qed

lemma dec_nat_hd_not_minus: "hd (dec_nat n) \<noteq> CHR ''-''"
proof (induction n rule: dec_nat.induct)
  case (1 n)
  show ?case
  proof (cases "n < 10")
    case True
    then show ?thesis using digit_char_not_minus [of n] by (subst dec_nat.simps) simp
  next
    case False
    then show ?thesis
      using "1.IH" dec_nat_nonempty [of "n div 10"] by (subst dec_nat.simps) simp
  qed
qed

lemma dec_int_inj: "dec_int i = dec_int j \<Longrightarrow> i = j"
proof -
  assume eq: "dec_int i = dec_int j"
  have neg_pos: "CHR ''-'' # dec_nat a \<noteq> dec_nat b" for a b
    using dec_nat_hd_not_minus [of b] by (metis list.sel(1))
  show "i = j"
  proof (cases "i < 0")
    case True
    show ?thesis
    proof (cases "j < 0")
      case jt: True
      then have "nat (- i) = nat (- j)" using eq True dec_nat_inj by (simp add: dec_int_def)
      then show ?thesis using True jt by simp
    next
      case False
      then show ?thesis using eq True neg_pos by (simp add: dec_int_def)
    qed
  next
    case False
    show ?thesis
    proof (cases "j < 0")
      case True
      then show ?thesis using eq False neg_pos [of "nat (- j)" "nat i"] by (simp add: dec_int_def)
    next
      case jf: False
      then have "nat i = nat j" using eq False dec_nat_inj by (simp add: dec_int_def)
      then show ?thesis using False jf by simp
    qed
  qed
qed

lemma file_path_millis_inj:
  "file_path_of cfg k (orc_file_name p b t) = file_path_of cfg k (orc_file_name p b t') \<longleftrightarrow> t = t'"
  by (auto simp: file_path_of_def orc_file_name_def dest: dec_int_inj)

subsection \<open>Preparing a writer\<close>

lemma map_of_map_insert_absent: "map_of m k = None \<Longrightarrow> map_of (map_insert m k w) k = Some w"
  by (simp add: map_insert_def map_add_def)

lemma create_writer_ok:
  assumes "file_name_prefix (t_iceberg_sink S) = Some p"
      and "file_format (t_iceberg_sink S) = ''orc''"
      and "broker_addresses (t_iceberg_sink S) \<noteq> []"
      and "ok (new_writable_file e (file_path_of (t_iceberg_sink S) k
                 (orc_file_name p (backend_id e) (UnixMillis e k))))"
  shows "create_writer S e st k =
     (OK, st\<lparr>partition_writer_map :=
                map_insert (partition_writer_map st) k
                  \<lparr>w_path = file_path_of (t_iceberg_sink S) k (orc_file_name p (backend_id e) (UnixMillis e k)),
                   w_size = new_file_size e k,
                   w_stripe = stripe_size_of (unat (bytes_per_file (t_iceberg_sink S)))\<rparr>,
              export_output_files := export_output_files st @
                [file_path_of (t_iceberg_sink S) k (orc_file_name p (backend_id e) (UnixMillis e k))]\<rparr>)"
  using assms by (simp add: create_writer_def gen_file_name_def Let_def)

lemma create_writer_returns_ok:
  assumes "create_writer S e st k = (s, st')" and "ok s" and "map_of (partition_writer_map st) k = None"
  shows "\<exists>w. map_of (partition_writer_map st') k = Some w \<and> w_size w = new_file_size e k
            \<and> export_output_files st' = export_output_files st @ [w_path w]"
  using assms
  by (auto simp: create_writer_def gen_file_name_def Let_def ok_def map_of_map_insert_absent
           split: option.splits if_splits)

lemma prepare_returns_ok:
  assumes "prepare_partition_writer S e st k = (s, st1)" and "ok s"
  shows "\<exists>w. map_of (partition_writer_map st1) k = Some w
            \<and> (st1 = st \<and> w_size w < unat (bytes_per_file (t_iceberg_sink S))
                \<or> w_size w = new_file_size e k
                  \<and> export_output_files st1 = export_output_files st @ [w_path w])"
proof (cases "map_of (partition_writer_map st) k")
  case None
  then show ?thesis
    using assms create_writer_returns_ok [of S e st k s st1]
    by (auto simp: prepare_partition_writer_def)
next
  case (Some w)
  show ?thesis
  proof (cases "w_size w \<ge> unat (bytes_per_file (t_iceberg_sink S))")
    case True
    let ?st = "st\<lparr>partition_writer_map := map_erase (partition_writer_map st) k,
                  finished_files := finished_files st @ [w_path w]\<rparr>"
    have "create_writer S e ?st k = (s, st1)"
      using assms Some True by (auto simp: prepare_partition_writer_def ok_def split: if_splits)
    moreover have "map_of (partition_writer_map ?st) k = None"
      by (simp add: map_of_map_erase)
    ultimately show ?thesis
      using assms(2) create_writer_returns_ok [of S e ?st k s st1] by auto
  next
    case False
    then show ?thesis
      using assms Some by (auto simp: prepare_partition_writer_def)
  qed
qed

lemma map_of_grow:
  "map_of (map (\<lambda>kw. if fst kw = k then (fst kw, (snd kw)\<lparr>w_size := w_size (snd kw) + g\<rparr>) else kw) m) k
   = map_option (\<lambda>w. w\<lparr>w_size := w_size w + g\<rparr>) (map_of m k)"
  by (induction m) auto

lemma create_ignores_add_chunk:
  "create_writer S (e\<lparr>add_chunk := f\<rparr>) st k = create_writer S e st k"
  by (auto simp: create_writer_def Let_def split: sum.splits)

lemma prepare_ignores_add_chunk:
  "prepare_partition_writer S (e\<lparr>add_chunk := f\<rparr>) st k = prepare_partition_writer S e st k"
  by (auto simp: prepare_partition_writer_def create_ignores_add_chunk split: option.splits)

lemma write_after_prepare:
  assumes "prepare_partition_writer S e st k = (OK, st1)"
      and "map_of (partition_writer_map st1) k = Some w"
  shows "fst (write_to_partition S e st c k) = Returned (fst (add_chunk e k c))"
    and "map_of (partition_writer_map (snd (write_to_partition S e st c k))) k
           = Some (w\<lparr>w_size := w_size w + snd (add_chunk e k c)\<rparr>)"
    and "add_chunk_log (snd (write_to_partition S e st c k)) = add_chunk_log st1 @ [(k, c)]"
  using assms
  by (auto simp: write_to_partition_def writer_add_chunk_def ok_def map_of_grow split: prod.splits)

text \<open>
  C9, as the code has it. The budget is looked at only in \<open>prepare_partition_writer\<close>,
  before the append. When the preparation returns OK, either nothing has changed and the
  key's writer is strictly below the budget, or this request has created the writer
  (its path is the one just recorded): its size is then the size of a new file, which
  is compared with no budget. The append then adds whatever
  the builder reports, unchecked: for every number \<open>n\<close> of bytes the builder may report,
  the writer's size after the call is its size before plus \<open>n\<close>, so a file can end far
  above the budget.
\<close>

theorem budget_checked_between_requests:
  assumes "prepare_partition_writer S e st k = (OK, st1)"
  shows "\<exists>w. map_of (partition_writer_map st1) k = Some w
           \<and> (st1 = st \<and> w_size w < unat (bytes_per_file (t_iceberg_sink S))
                \<or> w_size w = new_file_size e k
                  \<and> export_output_files st1 = export_output_files st @ [w_path w])
           \<and> fst (write_to_partition S e st c k) = Returned (fst (add_chunk e k c))
           \<and> map_of (partition_writer_map (snd (write_to_partition S e st c k))) k
                = Some (w\<lparr>w_size := w_size w + snd (add_chunk e k c)\<rparr>)
           \<and> (\<forall>n. map_of (partition_writer_map
                        (snd (write_to_partition S (e\<lparr>add_chunk := (\<lambda>_ _. (OK, n))\<rparr>) st c k))) k
                = Some (w\<lparr>w_size := w_size w + n\<rparr>))"
proof -
  obtain w where w: "map_of (partition_writer_map st1) k = Some w"
      and sz: "st1 = st \<and> w_size w < unat (bytes_per_file (t_iceberg_sink S))
                \<or> w_size w = new_file_size e k
                  \<and> export_output_files st1 = export_output_files st @ [w_path w]"
    using prepare_returns_ok [OF assms] by (auto simp: ok_def)
  have p': "prepare_partition_writer S (e\<lparr>add_chunk := (\<lambda>_ _. (OK, n))\<rparr>) st k = (OK, st1)" for n
    using assms by (simp add: prepare_ignores_add_chunk)
  have "map_of (partition_writer_map
                 (snd (write_to_partition S (e\<lparr>add_chunk := (\<lambda>_ _. (OK, n))\<rparr>) st c k))) k
        = Some (w\<lparr>w_size := w_size w + n\<rparr>)" for n
    using write_after_prepare(2) [OF p' w, of n c] by simp
  then show ?thesis
    using w sz write_after_prepare(1,2) [OF assms w, of c] by auto
qed

text \<open>
  With a budget of 100 bytes and a builder that reports 250 bytes for the first chunk,
  the new writer is empty before the append and holds 250 bytes after it.
\<close>

theorem budget_checked_between_requests_witness:
  "prepare_partition_writer ex_sink ex_env initial_state ''dt=2024-01-01/''
     = (OK, ex_state1\<lparr>add_chunk_log := []\<rparr>)
   \<and> unat (bytes_per_file (t_iceberg_sink ex_sink)) = 100
   \<and> map_of (partition_writer_map (ex_state1\<lparr>add_chunk_log := []\<rparr>)) ''dt=2024-01-01/'' = Some ex_writer1
   \<and> w_size ex_writer1 < unat (bytes_per_file (t_iceberg_sink ex_sink))
   \<and> map_of (partition_writer_map
        (snd (write_to_partition ex_sink (ex_env\<lparr>add_chunk := (\<lambda>_ _. (OK, 250))\<rparr>) initial_state
                ex_chunk1 ''dt=2024-01-01/''))) ''dt=2024-01-01/''
     = Some (ex_writer1\<lparr>w_size := 250\<rparr>)"
proof -
  have p: "prepare_partition_writer ex_sink ex_env initial_state ''dt=2024-01-01/''
     = (OK, ex_state1\<lparr>add_chunk_log := []\<rparr>)"
    by (simp add: write_defs ex_defs initial_state_def ex_state1_def ex_writer1_def Let_def)
  have m: "map_of (partition_writer_map (ex_state1\<lparr>add_chunk_log := []\<rparr>)) ''dt=2024-01-01/'' = Some ex_writer1"
    by (simp add: ex_state1_def)
  have b: "unat (bytes_per_file (t_iceberg_sink ex_sink)) = 100"
    by (simp add: ex_defs)
  obtain w where w: "map_of (partition_writer_map (ex_state1\<lparr>add_chunk_log := []\<rparr>)) ''dt=2024-01-01/'' = Some w"
    and g: "\<forall>n. map_of (partition_writer_map
                        (snd (write_to_partition ex_sink (ex_env\<lparr>add_chunk := (\<lambda>_ _. (OK, n))\<rparr>)
                                initial_state ex_chunk1 ''dt=2024-01-01/''))) ''dt=2024-01-01/''
                = Some (w\<lparr>w_size := w_size w + n\<rparr>)"
    using budget_checked_between_requests [OF p, of ex_chunk1] by blast
  have "w = ex_writer1" using w m by simp
  then have "map_of (partition_writer_map
        (snd (write_to_partition ex_sink (ex_env\<lparr>add_chunk := (\<lambda>_ _. (OK, 250))\<rparr>) initial_state
                ex_chunk1 ''dt=2024-01-01/''))) ''dt=2024-01-01/''
     = Some (ex_writer1\<lparr>w_size := 250\<rparr>)"
    using g [rule_format, of 250] by (simp add: ex_writer1_def)
  then show ?thesis using p m b by (simp add: ex_writer1_def)
qed

text \<open>
  C9 as stated fails for a budget of 0 bytes (what a Thrift \<open>i64\<close> holds when it is not
  set): every request then opens a new file, and the chunk is appended to a writer whose
  size, 0 at the least, is not strictly below the budget.
\<close>

theorem budget_checked_counterexample:
  "unat (bytes_per_file (t_iceberg_sink (ex_sink\<lparr>t_iceberg_sink := ex_cfg\<lparr>bytes_per_file := 0\<rparr>\<rparr>))) = 0
   \<and> prepare_partition_writer (ex_sink\<lparr>t_iceberg_sink := ex_cfg\<lparr>bytes_per_file := 0\<rparr>\<rparr>) ex_env
        initial_state ''dt=2024-01-01/''
      = (OK, \<lparr>partition_writer_map =
                [(''dt=2024-01-01/'',
                  \<lparr>w_path = ''s3://t/data/dt=2024-01-01/f_7_42.orc'', w_size = 0, w_stripe = 0\<rparr>)],
              export_output_files = [''s3://t/data/dt=2024-01-01/f_7_42.orc''],
              finished_files = [], add_chunk_log = []\<rparr>)
   \<and> write_to_partition (ex_sink\<lparr>t_iceberg_sink := ex_cfg\<lparr>bytes_per_file := 0\<rparr>\<rparr>) ex_env
        initial_state ex_chunk1 ''dt=2024-01-01/''
      = (Returned OK,
         \<lparr>partition_writer_map =
                [(''dt=2024-01-01/'',
                  \<lparr>w_path = ''s3://t/data/dt=2024-01-01/f_7_42.orc'', w_size = 0, w_stripe = 0\<rparr>)],
              export_output_files = [''s3://t/data/dt=2024-01-01/f_7_42.orc''],
              finished_files = [], add_chunk_log = [(''dt=2024-01-01/'', ex_chunk1)]\<rparr>)"
  by (simp add: write_defs ex_defs initial_state_def Let_def)

text \<open>
  C3, as the code has it. For a key with a writer: below the budget the writer is kept
  and nothing changes. At or above the budget the writer's \<open>finish()\<close> is called; if it
  fails, its error is returned and the writer stays. If it succeeds, and the prefix is
  set, the format is ORC, a broker is configured and the file can be opened, the old
  writer is removed (its path is among the finished ones) and the key gets a new writer
  on a new file, whose path is recorded. That path is built from the clock's milliseconds: it
  equals the path made at a clock reading \<open>t\<close> exactly if \<open>t\<close> is the current reading, so
  it differs from the key's earlier paths exactly if the clock has moved on since.
\<close>

theorem roll_at_budget:
  assumes "map_of (partition_writer_map st) k = Some w"
  shows "(w_size w < unat (bytes_per_file (t_iceberg_sink S)) \<longrightarrow>
            prepare_partition_writer S e st k = (OK, st))
       \<and> (unat (bytes_per_file (t_iceberg_sink S)) \<le> w_size w \<and> \<not> ok (finish e k) \<longrightarrow>
            prepare_partition_writer S e st k = (finish e k, st))
       \<and> (unat (bytes_per_file (t_iceberg_sink S)) \<le> w_size w \<and> ok (finish e k)
            \<and> file_name_prefix (t_iceberg_sink S) = Some p
            \<and> file_format (t_iceberg_sink S) = ''orc''
            \<and> broker_addresses (t_iceberg_sink S) \<noteq> []
            \<and> ok (new_writable_file e (file_path_of (t_iceberg_sink S) k
                     (orc_file_name p (backend_id e) (UnixMillis e k)))) \<longrightarrow>
            fst (prepare_partition_writer S e st k) = OK
          \<and> map_of (partition_writer_map (snd (prepare_partition_writer S e st k))) k
              = Some \<lparr>w_path = file_path_of (t_iceberg_sink S) k
                                 (orc_file_name p (backend_id e) (UnixMillis e k)),
                      w_size = new_file_size e k,
                      w_stripe = stripe_size_of (unat (bytes_per_file (t_iceberg_sink S)))\<rparr>
          \<and> finished_files (snd (prepare_partition_writer S e st k)) = finished_files st @ [w_path w]
          \<and> export_output_files (snd (prepare_partition_writer S e st k))
              = export_output_files st @
                  [file_path_of (t_iceberg_sink S) k (orc_file_name p (backend_id e) (UnixMillis e k))]
          \<and> (\<forall>t. file_path_of (t_iceberg_sink S) k (orc_file_name p (backend_id e) t)
                   = file_path_of (t_iceberg_sink S) k (orc_file_name p (backend_id e) (UnixMillis e k))
                 \<longleftrightarrow> t = UnixMillis e k))"
proof (intro conjI impI)
  show "prepare_partition_writer S e st k = (OK, st)"
    if "w_size w < unat (bytes_per_file (t_iceberg_sink S))"
    using that assms by (simp add: prepare_partition_writer_def)
  show "prepare_partition_writer S e st k = (finish e k, st)"
    if "unat (bytes_per_file (t_iceberg_sink S)) \<le> w_size w \<and> \<not> ok (finish e k)"
    using that assms by (simp add: prepare_partition_writer_def)
next
  let ?path = "file_path_of (t_iceberg_sink S) k (orc_file_name p (backend_id e) (UnixMillis e k))"
  let ?st = "st\<lparr>partition_writer_map := map_erase (partition_writer_map st) k,
                finished_files := finished_files st @ [w_path w]\<rparr>"
  assume h: "unat (bytes_per_file (t_iceberg_sink S)) \<le> w_size w \<and> ok (finish e k)
            \<and> file_name_prefix (t_iceberg_sink S) = Some p
            \<and> file_format (t_iceberg_sink S) = ''orc''
            \<and> broker_addresses (t_iceberg_sink S) \<noteq> []
            \<and> ok (new_writable_file e ?path)"
  have p: "prepare_partition_writer S e st k = create_writer S e ?st k"
    using h assms by (simp add: prepare_partition_writer_def)
  have c: "create_writer S e ?st k =
     (OK, ?st\<lparr>partition_writer_map :=
                map_insert (partition_writer_map ?st) k
                  \<lparr>w_path = ?path, w_size = new_file_size e k,
                   w_stripe = stripe_size_of (unat (bytes_per_file (t_iceberg_sink S)))\<rparr>,
              export_output_files := export_output_files ?st @ [?path]\<rparr>)"
    using h by (intro create_writer_ok) simp_all
  have absent: "map_of (map_erase (partition_writer_map st) k) k = None"
    by (rule map_of_map_erase)
  show "fst (prepare_partition_writer S e st k) = OK"
    by (simp add: p c)
  show "map_of (partition_writer_map (snd (prepare_partition_writer S e st k))) k
              = Some \<lparr>w_path = ?path, w_size = new_file_size e k,
                      w_stripe = stripe_size_of (unat (bytes_per_file (t_iceberg_sink S)))\<rparr>"
    using absent by (simp add: p c map_of_map_insert_absent)
  show "finished_files (snd (prepare_partition_writer S e st k)) = finished_files st @ [w_path w]"
    by (simp add: p c)
  show "export_output_files (snd (prepare_partition_writer S e st k)) = export_output_files st @ [?path]"
    by (simp add: p c)
  show "\<forall>t. file_path_of (t_iceberg_sink S) k (orc_file_name p (backend_id e) t) = ?path
                 \<longleftrightarrow> t = UnixMillis e k"
    by (simp add: file_path_millis_inj)
qed

text \<open>
  The writer of \<open>ex_state_full\<close> holds 100 bytes, the budget. At clock 43 it is finished
  and replaced by a writer on a new path.
\<close>

theorem roll_at_budget_witness:
  "map_of (partition_writer_map ex_state_full) ''dt=2024-01-01/'' = Some (ex_writer1\<lparr>w_size := 100\<rparr>)
   \<and> unat (bytes_per_file (t_iceberg_sink ex_sink)) \<le> w_size (ex_writer1\<lparr>w_size := 100\<rparr>)
   \<and> ok (finish (ex_env\<lparr>UnixMillis := (\<lambda>_. 43)\<rparr>) ''dt=2024-01-01/'')
   \<and> fst (prepare_partition_writer ex_sink (ex_env\<lparr>UnixMillis := (\<lambda>_. 43)\<rparr>) ex_state_full ''dt=2024-01-01/'') = OK
   \<and> map_of (partition_writer_map (snd (prepare_partition_writer ex_sink (ex_env\<lparr>UnixMillis := (\<lambda>_. 43)\<rparr>)
                 ex_state_full ''dt=2024-01-01/''))) ''dt=2024-01-01/''
      = Some \<lparr>w_path = ''s3://t/data/dt=2024-01-01/f_7_43.orc'', w_size = 0, w_stripe = 100\<rparr>
   \<and> finished_files (snd (prepare_partition_writer ex_sink (ex_env\<lparr>UnixMillis := (\<lambda>_. 43)\<rparr>)
                 ex_state_full ''dt=2024-01-01/'')) = [''s3://t/data/dt=2024-01-01/f_7_42.orc'']
   \<and> export_output_files (snd (prepare_partition_writer ex_sink (ex_env\<lparr>UnixMillis := (\<lambda>_. 43)\<rparr>)
                 ex_state_full ''dt=2024-01-01/''))
      = [''s3://t/data/dt=2024-01-01/f_7_42.orc'', ''s3://t/data/dt=2024-01-01/f_7_43.orc'']"
proof -
  let ?e = "ex_env\<lparr>UnixMillis := (\<lambda>_. 43)\<rparr>"
  have m: "map_of (partition_writer_map ex_state_full) ''dt=2024-01-01/'' = Some (ex_writer1\<lparr>w_size := 100\<rparr>)"
    by (simp add: ex_state_full_def)
  have h: "unat (bytes_per_file (t_iceberg_sink ex_sink)) \<le> w_size (ex_writer1\<lparr>w_size := 100\<rparr>)
       \<and> ok (finish ?e ''dt=2024-01-01/'')
       \<and> file_name_prefix (t_iceberg_sink ex_sink) = Some ''f''
       \<and> file_format (t_iceberg_sink ex_sink) = ''orc''
       \<and> broker_addresses (t_iceberg_sink ex_sink) \<noteq> []
       \<and> ok (new_writable_file ?e (file_path_of (t_iceberg_sink ex_sink) ''dt=2024-01-01/''
                (orc_file_name ''f'' (backend_id ?e) (UnixMillis ?e ''dt=2024-01-01/''))))"
    by (simp add: ex_defs ok_def)
  have v: "file_path_of (t_iceberg_sink ex_sink) ''dt=2024-01-01/''
             (orc_file_name ''f'' (backend_id ?e) (UnixMillis ?e ''dt=2024-01-01/''))
           = ''s3://t/data/dt=2024-01-01/f_7_43.orc''"
    by (simp add: ex_defs file_path_of_def orc_file_name_def dec_int_def dec_nat.simps digit_char_def)
  have s: "stripe_size_of (unat (bytes_per_file (t_iceberg_sink ex_sink))) = 100"
    by (simp add: ex_defs stripe_size_of.simps)
  have r: "fst (prepare_partition_writer ex_sink ?e ex_state_full ''dt=2024-01-01/'') = OK
      \<and> map_of (partition_writer_map (snd (prepare_partition_writer ex_sink ?e ex_state_full
                    ''dt=2024-01-01/''))) ''dt=2024-01-01/''
          = Some \<lparr>w_path = file_path_of (t_iceberg_sink ex_sink) ''dt=2024-01-01/''
                             (orc_file_name ''f'' (backend_id ?e) (UnixMillis ?e ''dt=2024-01-01/'')),
                  w_size = new_file_size ?e ''dt=2024-01-01/'',
                  w_stripe = stripe_size_of (unat (bytes_per_file (t_iceberg_sink ex_sink)))\<rparr>
      \<and> finished_files (snd (prepare_partition_writer ex_sink ?e ex_state_full ''dt=2024-01-01/''))
          = finished_files ex_state_full @ [w_path (ex_writer1\<lparr>w_size := 100\<rparr>)]
      \<and> export_output_files (snd (prepare_partition_writer ex_sink ?e ex_state_full ''dt=2024-01-01/''))
          = export_output_files ex_state_full @
              [file_path_of (t_iceberg_sink ex_sink) ''dt=2024-01-01/''
                 (orc_file_name ''f'' (backend_id ?e) (UnixMillis ?e ''dt=2024-01-01/''))]"
    using roll_at_budget [OF m, of ex_sink ?e "''f''"] h by blast
  have f: "finished_files ex_state_full @ [w_path (ex_writer1\<lparr>w_size := 100\<rparr>)]
             = [''s3://t/data/dt=2024-01-01/f_7_42.orc'']"
    and x: "export_output_files ex_state_full = [''s3://t/data/dt=2024-01-01/f_7_42.orc'']"
    by (simp_all add: ex_state_full_def ex_writer1_def)
  have z: "new_file_size ?e ''dt=2024-01-01/'' = 0"
    by (simp add: ex_defs)
  show ?thesis
    using r m h unfolding v s f x z by simp
qed

text \<open>
  C3 as stated fails when the clock has not moved on. \<open>ex_chunk1\<close> is sent twice, the
  builder reports 100 bytes each time, and the clock reads 42 both times. The second
  send finishes the first writer and opens its successor under the very same path.
  A file system that refuses to create an existing file makes the second send fail
  instead, and the key is left without a writer.
\<close>

theorem roll_at_budget_counterexample:
  "send_chunk ex_sink libstdcxx (ex_env\<lparr>add_chunk := (\<lambda>_ _. (OK, 100))\<rparr>) initial_state ex_chunk1
     = (Returned OK, ex_state_full, ex_chunk1)
   \<and> send_chunk ex_sink libstdcxx (ex_env\<lparr>add_chunk := (\<lambda>_ _. (OK, 100))\<rparr>) ex_state_full ex_chunk1
     = (Returned OK,
        \<lparr>partition_writer_map =
           [(''dt=2024-01-01/'',
             \<lparr>w_path = ''s3://t/data/dt=2024-01-01/f_7_42.orc'', w_size = 100, w_stripe = 100\<rparr>)],
         export_output_files =
           [''s3://t/data/dt=2024-01-01/f_7_42.orc'', ''s3://t/data/dt=2024-01-01/f_7_42.orc''],
         finished_files = [''s3://t/data/dt=2024-01-01/f_7_42.orc''],
         add_chunk_log = [(''dt=2024-01-01/'', ex_chunk1), (''dt=2024-01-01/'', ex_chunk1)]\<rparr>,
        ex_chunk1)
   \<and> send_chunk ex_sink libstdcxx (ex_env\<lparr>new_writable_file := (\<lambda>_. Failed ''already exists'')\<rparr>)
        ex_state_full ex_chunk1
     = (Returned (Failed ''already exists''),
        \<lparr>partition_writer_map = [],
         export_output_files = [''s3://t/data/dt=2024-01-01/f_7_42.orc''],
         finished_files = [''s3://t/data/dt=2024-01-01/f_7_42.orc''],
         add_chunk_log = [(''dt=2024-01-01/'', ex_chunk1)]\<rparr>,
        ex_chunk1)"
  by (simp add: send_ex_full)
     (simp add: send_defs ex_chunk1_def ex_state_full_def ex_writer1_def)

subsection \<open>The caller's chunk\<close>

lemma columns_reindex_slots: "columns (reindex_slots slots c) = columns c"
  by (simp add: reindex_slots_def)

lemma untouched_refl: "untouched h h"
  by (simp add: untouched_def)

lemma untouched_trans:
  assumes "untouched h h1" and "untouched h1 h2"
  shows "untouched h h2"
proof -
  have l: "length h \<le> length h1" and t: "take (length h) h1 = h"
    using assms(1) by (simp_all add: untouched_def)
  have l1: "length h1 \<le> length h2" and t1: "take (length h1) h2 = h1"
    using assms(2) by (simp_all add: untouched_def)
  have "take (length h) (take (length h1) h2) = take (length h) h2"
    using l by (simp add: min_def)
  then have "take (length h) h2 = h"
    using t t1 by simp
  then show ?thesis using l l1 by (simp add: untouched_def)
qed

lemma untouched_nth: "untouched h h' \<Longrightarrow> b < length h \<Longrightarrow> h' ! b = h ! b"
  by (metis untouched_def nth_take)

lemma untouched_new: "untouched h (h @ [c])"
  by (simp add: untouched_def)

text \<open>The loop of \<open>set_slot_id_to_index\<close> calls writes the map \<open>set_slot_ids\<close> computes.\<close>

lemma set_slots_at_char:
  "p < length h \<Longrightarrow>
   set_slots_at ss i h p = h[p := (h ! p)\<lparr>slot_id_to_index := set_slot_ids ss i (slot_id_to_index (h ! p))\<rparr>]"
proof (induction ss arbitrary: i h)
  case Nil
  then show ?case by simp
next
  case (Cons s ss)
  define h1 where "h1 = set_slot_id_to_index h p (slot_id s) i"
  have l: "p < length h1" using Cons.prems by (simp add: h1_def set_slot_id_to_index_def)
  have v: "h1 ! p = (h ! p)\<lparr>slot_id_to_index := (slot_id_to_index (h ! p))(slot_id s \<mapsto> i)\<rparr>"
    using Cons.prems by (simp add: h1_def set_slot_id_to_index_def)
  have u: "h1[p := c] = h[p := c]" for c
    by (simp add: h1_def set_slot_id_to_index_def)
  have "set_slots_at (s # ss) i h p = set_slots_at ss (Suc i) h1 p"
    by (simp add: h1_def)
  also have "\<dots> = h1[p := (h1 ! p)\<lparr>slot_id_to_index := set_slot_ids ss (Suc i) (slot_id_to_index (h1 ! p))\<rparr>]"
    using l by (rule Cons.IH)
  also have "\<dots> = h[p := (h ! p)\<lparr>slot_id_to_index := set_slot_ids (s # ss) i (slot_id_to_index (h ! p))\<rparr>]"
    unfolding u v by simp
  finally show ?case .
qed

lemma reindex_at:
  "p < length h \<Longrightarrow>
   set_slots_at slots 0 (reset_slot_id_to_index h p) p = h[p := reindex_slots slots (h ! p)]"
  by (simp add: set_slots_at_char reset_slot_id_to_index_def reindex_slots_def)

text \<open>
  What the rebuilt map holds: nothing for an id that belongs to no slot, and for the id
  of a slot the position of the last slot with that id.
\<close>

lemma set_slot_ids_other:
  "sid \<notin> slot_id ` set ss \<Longrightarrow> set_slot_ids ss i m sid = m sid"
  by (induction ss arbitrary: i m) auto

lemma set_slot_ids_last:
  "k < length ss \<Longrightarrow> \<forall>j. k < j \<and> j < length ss \<longrightarrow> slot_id (ss ! j) \<noteq> slot_id (ss ! k) \<Longrightarrow>
   set_slot_ids ss i m (slot_id (ss ! k)) = Some (i + k)"
proof (induction ss arbitrary: i m k)
  case Nil
  then show ?case by simp
next
  case (Cons s ss)
  show ?case
  proof (cases k)
    case 0
    have "slot_id s \<notin> slot_id ` set ss"
    proof
      assume "slot_id s \<in> slot_id ` set ss"
      then obtain j where j: "j < length ss" "slot_id (ss ! j) = slot_id s"
        by (auto simp: in_set_conv_nth)
      then show False using Cons.prems(2) [rule_format, of "Suc j"] 0 by simp
    qed
    then show ?thesis using 0 by (simp add: set_slot_ids_other)
  next
    case (Suc k')
    have a: "k' < length ss" using Cons.prems(1) Suc by simp
    have b: "\<forall>j. k' < j \<and> j < length ss \<longrightarrow> slot_id (ss ! j) \<noteq> slot_id (ss ! k')"
    proof (intro allI impI)
      fix j
      assume "k' < j \<and> j < length ss"
      then show "slot_id (ss ! j) \<noteq> slot_id (ss ! k')"
        using Cons.prems(2) [rule_format, of "Suc j"] Suc by simp
    qed
    show ?thesis using Cons.IH [OF a b] Suc by simp
  qed
qed

text \<open>
  The functions on the store compute what the functions on chunks compute, and they
  write to no object that was there before, except where \<open>send_chunk\<close> rebuilds the slot
  map of the caller's chunk.
\<close>

lemma project_at_char:
  "out < length h \<Longrightarrow>
   (case project e slots is (h ! out) of
      Inl r \<Rightarrow> fst (project_at e slots is h out) = Some r
    | Inr oc \<Rightarrow> project_at e slots is h out = (None, h[out := oc]))
   \<and> length (snd (project_at e slots is h out)) = length h
   \<and> (\<forall>b. b \<noteq> out \<longrightarrow> snd (project_at e slots is h out) ! b = h ! b)"
proof (induction "is" arbitrary: h)
  case Nil
  then show ?case by simp
next
  case (Cons i "is")
  show ?case
  proof (cases "evaluate e i")
    case (Inl msg)
    then show ?thesis by simp
  next
    case (Inr col)
    show ?thesis
    proof (cases "nth_opt slots i")
      case None
      then show ?thesis using Inr by simp
    next
      case (Some s)
      let ?h1 = "h[out := append_column (h ! out) col (slot_id s)]"
      have l: "out < length ?h1" using Cons.prems by simp
      have v: "?h1 ! out = append_column (h ! out) col (slot_id s)" using Cons.prems by simp
      have u: "?h1[out := oc] = h[out := oc]" for oc by simp
      show ?thesis
        using Cons.IH [OF l] Inr Some unfolding v
        by (auto simp: u split: sum.splits)
    qed
  qed
qed

lemma gather_clone:
  "map2 (\<lambda>d col. d @ f col) (map (\<lambda>_. []) cs) cs = map f cs"
  by (induction cs) auto

lemma append_selective_at_clone:
  assumes "p < length h"
  shows "case append_selective (h ! p) idx of
           Inl f \<Rightarrow> append_selective_at (h @ [clone_empty_with_slot (h ! p)]) (length h) p idx = Inl f
         | Inr g \<Rightarrow> append_selective_at (h @ [clone_empty_with_slot (h ! p)]) (length h) p idx
                       = Inr (h @ [g])"
  using assms
  by (auto simp: append_selective_def append_selective_at_def clone_empty_with_slot_def
        nth_append gather_clone)

lemma write_partitions_at_char:
  "p < length h \<Longrightarrow>
   write_partitions S L e (h ! p) kv refs js st
     = (fst (write_partitions_at S L e p kv refs js st h),
        fst (snd (write_partitions_at S L e p kv refs js st h)))
   \<and> untouched h (snd (snd (write_partitions_at S L e p kv refs js st h)))"
proof (induction js arbitrary: st h)
  case Nil
  then show ?case by (simp add: untouched_refl)
next
  case (Cons j js)
  let ?idx = "select_rows refs (data_ptr L kv j)"
  let ?h1 = "h @ [clone_empty_with_slot (h ! p)]"
  show ?case
  proof (cases "append_selective (h ! p) ?idx")
    case (Inl f)
    then have "append_selective_at ?h1 (length h) p ?idx = Inl f"
      using append_selective_at_clone [OF Cons.prems, of ?idx] by simp
    then show ?thesis using Inl by (simp add: Let_def new_object_def untouched_new)
  next
    case (Inr g)
    let ?h2 = "h @ [g]"
    have a: "append_selective_at ?h1 (length h) p ?idx = Inr ?h2"
      using append_selective_at_clone [OF Cons.prems, of ?idx] Inr by simp
    have cur: "?h2 ! length h = g" by simp
    have p2: "p < length ?h2" using Cons.prems by simp
    have v: "?h2 ! p = h ! p" using Cons.prems by (simp add: nth_append)
    have u: "untouched h ?h2" by (rule untouched_new)
    obtain r1 st1 where w: "write_to_partition S e st g (keys_of kv ! j) = (r1, st1)"
      by (cases "write_to_partition S e st g (keys_of kv ! j)") auto
    have ih: "write_partitions S L e (h ! p) kv refs js st1
         = (fst (write_partitions_at S L e p kv refs js st1 ?h2),
            fst (snd (write_partitions_at S L e p kv refs js st1 ?h2)))
       \<and> untouched ?h2 (snd (snd (write_partitions_at S L e p kv refs js st1 ?h2)))"
      using Cons.IH [OF p2, of st1] unfolding v .
    then have ih2: "untouched h (snd (snd (write_partitions_at S L e p kv refs js st1 ?h2)))"
      using u untouched_trans by blast
    show ?thesis
      using Inr a w ih ih2 u
      by (cases r1) (simp_all add: Let_def new_object_def cur)
  qed
qed

lemma route_chunk_at_char:
  "p < length h \<Longrightarrow>
   route_chunk S L e st (h ! p)
     = (fst (route_chunk_at S L e st h p), fst (snd (route_chunk_at S L e st h p)))
   \<and> untouched h (snd (snd (route_chunk_at S L e st h p)))"
  using write_partitions_at_char [of p h S L e]
  by (auto simp: route_chunk_def route_chunk_at_def Let_def untouched_refl
           split: sum.splits prod.splits)

lemma send_chunk_at_char:
  assumes "chunk_ptr < length h"
  shows "send_chunk S L e st (h ! chunk_ptr)
           = (fst (send_chunk_at S L e st h chunk_ptr), fst (snd (send_chunk_at S L e st h chunk_ptr)),
              snd (snd (send_chunk_at S L e st h chunk_ptr)) ! chunk_ptr)"
    and "length h \<le> length (snd (snd (send_chunk_at S L e st h chunk_ptr)))"
    and "\<forall>b < length h. b \<noteq> chunk_ptr \<longrightarrow> snd (snd (send_chunk_at S L e st h chunk_ptr)) ! b = h ! b"
    and "snd (snd (send_chunk_at S L e st h chunk_ptr)) ! chunk_ptr
           = (if num_output_exprs S \<noteq> 0 then h ! chunk_ptr
              else reindex_slots (output_slots S) (h ! chunk_ptr))"
proof -
  let ?res = "send_chunk_at S L e st h chunk_ptr"
  let ?h' = "snd (snd ?res)"
  have all: "send_chunk S L e st (h ! chunk_ptr) = (fst ?res, fst (snd ?res), ?h' ! chunk_ptr)
      \<and> length h \<le> length ?h'
      \<and> (\<forall>b < length h. b \<noteq> chunk_ptr \<longrightarrow> ?h' ! b = h ! b)
      \<and> ?h' ! chunk_ptr = (if num_output_exprs S \<noteq> 0 then h ! chunk_ptr
                            else reindex_slots (output_slots S) (h ! chunk_ptr))"
  proof (cases "num_output_exprs S \<noteq> 0")
    case False
    let ?h1 = "h[chunk_ptr := reindex_slots (output_slots S) (h ! chunk_ptr)]"
    have r: "?res = route_chunk_at S L e st ?h1 chunk_ptr"
      using False assms by (simp add: send_chunk_at_def reindex_at)
    have l: "chunk_ptr < length ?h1" using assms by simp
    have v: "?h1 ! chunk_ptr = reindex_slots (output_slots S) (h ! chunk_ptr)" using assms by simp
    have c: "route_chunk S L e st (reindex_slots (output_slots S) (h ! chunk_ptr))
         = (fst ?res, fst (snd ?res))" and u: "untouched ?h1 ?h'"
      using route_chunk_at_char [OF l, of S L e st] unfolding v r by simp_all
    have n: "?h' ! b = ?h1 ! b" if "b < length h" for b
      using untouched_nth [OF u, of b] that by simp
    have len: "length h \<le> length ?h'" using u by (simp add: untouched_def)
    have s: "send_chunk S L e st (h ! chunk_ptr)
        = (fst ?res, fst (snd ?res), reindex_slots (output_slots S) (h ! chunk_ptr))"
      using False c by (simp add: send_chunk_def Let_def)
    show ?thesis
      using False s len n assms by simp
  next
    case True
    let ?h1 = "h @ [\<lparr>columns = [], slot_id_to_index = Map.empty\<rparr>]"
    let ?out = "length h"
    let ?pr = "project_at e (output_slots S) [0 ..< num_output_exprs S] ?h1 ?out"
    have lo: "?out < length ?h1" by simp
    have vo: "?h1 ! ?out = \<lparr>columns = [], slot_id_to_index = Map.empty\<rparr>" by simp
    have pc: "(case project e (output_slots S) [0 ..< num_output_exprs S]
                     \<lparr>columns = [], slot_id_to_index = Map.empty\<rparr> of
                 Inl r \<Rightarrow> fst ?pr = Some r
               | Inr oc \<Rightarrow> ?pr = (None, ?h1[?out := oc]))"
      and pl: "length (snd ?pr) = length ?h1"
      and pn: "\<forall>b. b \<noteq> ?out \<longrightarrow> snd ?pr ! b = ?h1 ! b"
      using project_at_char [OF lo, of e "output_slots S" "[0 ..< num_output_exprs S]"]
      unfolding vo by simp_all
    have keep: "snd ?pr ! b = h ! b" if "b < length h" for b
      using pn that by (simp add: nth_append)
    show ?thesis
    proof (cases "project e (output_slots S) [0 ..< num_output_exprs S]
                     \<lparr>columns = [], slot_id_to_index = Map.empty\<rparr>")
      case (Inl r)
      then have f: "fst ?pr = Some r" using pc by simp
      then have res: "?res = (r, st, snd ?pr)"
        using True by (cases ?pr) (simp add: send_chunk_at_def new_object_def)
      have s: "send_chunk S L e st (h ! chunk_ptr) = (r, st, h ! chunk_ptr)"
        using True Inl by (simp add: send_chunk_def)
      show ?thesis
        unfolding res using True s keep pl assms by simp
    next
      case (Inr oc)
      let ?h2 = "?h1[?out := oc]"
      have pr: "?pr = (None, ?h2)" using pc Inr by simp
      have res: "?res = route_chunk_at S L e st ?h2 ?out"
        using True pr by (simp add: send_chunk_at_def new_object_def)
      have l2: "?out < length ?h2" by simp
      have v2: "?h2 ! ?out = oc" by simp
      have c: "route_chunk S L e st oc = (fst ?res, fst (snd ?res))" and u: "untouched ?h2 ?h'"
        using route_chunk_at_char [OF l2, of S L e st] unfolding v2 res by simp_all
      have n: "?h' ! b = h ! b" if "b < length h" for b
        using untouched_nth [OF u, of b] that by (simp add: nth_append)
      have len: "length h \<le> length ?h'" using u by (simp add: untouched_def)
      have s: "send_chunk S L e st (h ! chunk_ptr) = (fst ?res, fst (snd ?res), h ! chunk_ptr)"
        using True Inr c by (simp add: send_chunk_def)
      show ?thesis
        using True s len n assms by simp
    qed
  qed
  show "send_chunk S L e st (h ! chunk_ptr) = (fst ?res, fst (snd ?res), ?h' ! chunk_ptr)"
    and "length h \<le> length ?h'"
    and "\<forall>b < length h. b \<noteq> chunk_ptr \<longrightarrow> ?h' ! b = h ! b"
    and "?h' ! chunk_ptr = (if num_output_exprs S \<noteq> 0 then h ! chunk_ptr
                            else reindex_slots (output_slots S) (h ! chunk_ptr))"
    using all by blast+
qed


text \<open>
  C5, as the code has it. The caller's pointer is valid. \<open>send_chunk\<close> never changes the
  columns of the caller's chunk, and it changes no other chunk that was there before the
  call: what it builds, it builds in objects of its own. With output expressions the
  caller's chunk is left exactly as it was. Without them its slot-id-to-index map is
  reset and rebuilt from the output tuple descriptor: an id that belongs to no slot maps
  to nothing, and the id of the k-th slot maps to k unless a later slot has the same id.
\<close>

theorem callers_chunk_after_send:
  assumes "chunk_ptr < length h"
  shows "columns (snd (snd (send_chunk_at S L e st h chunk_ptr)) ! chunk_ptr) = columns (h ! chunk_ptr)
       \<and> (\<forall>b < length h. b \<noteq> chunk_ptr \<longrightarrow> snd (snd (send_chunk_at S L e st h chunk_ptr)) ! b = h ! b)
       \<and> (num_output_exprs S \<noteq> 0 \<longrightarrow>
            snd (snd (send_chunk_at S L e st h chunk_ptr)) ! chunk_ptr = h ! chunk_ptr)
       \<and> (num_output_exprs S = 0 \<longrightarrow>
            (\<forall>sid. sid \<notin> slot_id ` set (output_slots S) \<longrightarrow>
                slot_id_to_index (snd (snd (send_chunk_at S L e st h chunk_ptr)) ! chunk_ptr) sid = None)
          \<and> (\<forall>k < length (output_slots S).
                (\<forall>j. k < j \<and> j < length (output_slots S)
                      \<longrightarrow> slot_id (output_slots S ! j) \<noteq> slot_id (output_slots S ! k)) \<longrightarrow>
                slot_id_to_index (snd (snd (send_chunk_at S L e st h chunk_ptr)) ! chunk_ptr)
                    (slot_id (output_slots S ! k)) = Some k))"
proof -
  let ?h' = "snd (snd (send_chunk_at S L e st h chunk_ptr))"
  have v: "?h' ! chunk_ptr = (if num_output_exprs S \<noteq> 0 then h ! chunk_ptr
                              else reindex_slots (output_slots S) (h ! chunk_ptr))"
    using assms by (rule send_chunk_at_char(4))
  have other: "\<forall>b < length h. b \<noteq> chunk_ptr \<longrightarrow> ?h' ! b = h ! b"
    using assms by (rule send_chunk_at_char(3))
  have cols: "columns (?h' ! chunk_ptr) = columns (h ! chunk_ptr)"
    by (simp add: v reindex_slots_def)
  have kept: "?h' ! chunk_ptr = h ! chunk_ptr" if "num_output_exprs S \<noteq> 0"
    using that by (simp add: v)
  have m: "slot_id_to_index (?h' ! chunk_ptr) = set_slot_ids (output_slots S) 0 Map.empty"
    if "num_output_exprs S = 0"
    using that by (simp add: v reindex_slots_def)
  have none: "slot_id_to_index (?h' ! chunk_ptr) sid = None"
    if "num_output_exprs S = 0" and "sid \<notin> slot_id ` set (output_slots S)" for sid
    using that by (simp add: m set_slot_ids_other)
  have some: "slot_id_to_index (?h' ! chunk_ptr) (slot_id (output_slots S ! k)) = Some k"
    if "num_output_exprs S = 0" and "k < length (output_slots S)"
      and "\<forall>j. k < j \<and> j < length (output_slots S)
                \<longrightarrow> slot_id (output_slots S ! j) \<noteq> slot_id (output_slots S ! k)" for k
    using set_slot_ids_last [OF that(2,3), of 0 Map.empty] that(1) by (simp add: m)
  show ?thesis
    using cols other kept none some by blast
qed

text \<open>
  Without output expressions, a chunk whose map knows its column under slot 5 keeps its
  column and comes back with the map of the descriptor: nothing for slot 5, index 0 for
  slot 1. With an output expression the same chunk comes back as it was.
\<close>

theorem callers_chunk_after_send_witness:
  "0 < length [ex_chunk1\<lparr>slot_id_to_index := [5 \<mapsto> 0]\<rparr>]
   \<and> columns (snd (snd (send_chunk_at ex_sink libstdcxx ex_env initial_state
                 [ex_chunk1\<lparr>slot_id_to_index := [5 \<mapsto> 0]\<rparr>] 0)) ! 0) = [[1704067800]]
   \<and> slot_id_to_index (snd (snd (send_chunk_at ex_sink libstdcxx ex_env initial_state
                 [ex_chunk1\<lparr>slot_id_to_index := [5 \<mapsto> 0]\<rparr>] 0)) ! 0) 5 = None
   \<and> slot_id_to_index (snd (snd (send_chunk_at ex_sink libstdcxx ex_env initial_state
                 [ex_chunk1\<lparr>slot_id_to_index := [5 \<mapsto> 0]\<rparr>] 0)) ! 0) 1 = Some 0
   \<and> num_output_exprs ex_sink_exprs \<noteq> 0
   \<and> snd (snd (send_chunk_at ex_sink_exprs libstdcxx ex_env_exprs initial_state
                 [ex_chunk1\<lparr>slot_id_to_index := [5 \<mapsto> 0]\<rparr>] 0)) ! 0
       = ex_chunk1\<lparr>slot_id_to_index := [5 \<mapsto> 0]\<rparr>"
proof -
  let ?c = "ex_chunk1\<lparr>slot_id_to_index := [5 \<mapsto> 0]\<rparr>"
  let ?h' = "snd (snd (send_chunk_at ex_sink libstdcxx ex_env initial_state [?c] 0))"
  have p: "0 < length [?c]" by simp
  have n: "num_output_exprs ex_sink = 0" "num_output_exprs ex_sink_exprs \<noteq> 0"
    by (simp_all add: ex_sink_def ex_sink_exprs_def)
  have s: "output_slots ex_sink = [\<lparr>slot_id = 1, col_name = ''ts''\<rparr>]"
    by (simp add: ex_sink_def)
  have a: "5 \<notin> slot_id ` set (output_slots ex_sink)"
    by (simp add: s)
  have b: "0 < length (output_slots ex_sink)
      \<and> (\<forall>j. 0 < j \<and> j < length (output_slots ex_sink)
             \<longrightarrow> slot_id (output_slots ex_sink ! j) \<noteq> slot_id (output_slots ex_sink ! 0))"
    by (auto simp: s)
  have i: "slot_id (output_slots ex_sink ! 0) = 1"
    by (simp add: s)
  have c: "columns ([?c] ! 0) = [[1704067800]]"
    by (simp add: ex_chunk1_def)
  have "columns (?h' ! 0) = columns ([?c] ! 0)
      \<and> slot_id_to_index (?h' ! 0) 5 = None
      \<and> slot_id_to_index (?h' ! 0) (slot_id (output_slots ex_sink ! 0)) = Some 0"
    using callers_chunk_after_send [OF p, of ex_sink libstdcxx ex_env initial_state] n(1) a b
    by blast
  moreover have "snd (snd (send_chunk_at ex_sink_exprs libstdcxx ex_env_exprs initial_state [?c] 0)) ! 0
      = [?c] ! 0"
    using callers_chunk_after_send [OF p, of ex_sink_exprs libstdcxx ex_env_exprs initial_state] n(2)
    by blast
  ultimately show ?thesis
    using n(2) unfolding i c by simp
qed

text \<open>
  C5 as stated fails on that input: \<open>send_chunk\<close> returns OK, and the slot-to-index
  bookkeeping of the caller's chunk is not what it was before the call.
\<close>

theorem callers_chunk_counterexample:
  "slot_id_to_index ([ex_chunk1\<lparr>slot_id_to_index := [5 \<mapsto> 0]\<rparr>] ! 0) 5 = Some 0
   \<and> fst (send_chunk_at ex_sink libstdcxx ex_env initial_state
            [ex_chunk1\<lparr>slot_id_to_index := [5 \<mapsto> 0]\<rparr>] 0) = Returned OK
   \<and> snd (snd (send_chunk_at ex_sink libstdcxx ex_env initial_state
                 [ex_chunk1\<lparr>slot_id_to_index := [5 \<mapsto> 0]\<rparr>] 0))
       = [ex_chunk1]
   \<and> slot_id_to_index ([ex_chunk1] ! 0) 5 = None
   \<and> slot_id_to_index ([ex_chunk1] ! 0) 1 = Some 0
   \<and> [ex_chunk1] ! 0 \<noteq> [ex_chunk1\<lparr>slot_id_to_index := [5 \<mapsto> 0]\<rparr>] ! 0"
proof -
  let ?c = "ex_chunk1\<lparr>slot_id_to_index := [5 \<mapsto> 0]\<rparr>"
  have r: "reindex_slots (output_slots ex_sink) ?c = ex_chunk1"
    by (simp add: ex_sink_def reindex_slots_def ex_chunk1_def)
  have h1: "set_slots_at (output_slots ex_sink) 0 (reset_slot_id_to_index [?c] 0) 0 = [ex_chunk1]"
    using reindex_at [of 0 "[?c]" "output_slots ex_sink"] by (simp add: r)
  have a: "send_chunk_at ex_sink libstdcxx ex_env initial_state [?c] 0
      = (Returned OK, ex_state1, [ex_chunk1])"
    unfolding send_chunk_at_def h1
    by (simp add: route_chunk_at_def route_defs write_defs ex_defs ex_chunk1_def
          initial_state_def ex_state1_def ex_writer1_def)
  have b: "slot_id_to_index ex_chunk1 5 = None" "slot_id_to_index ex_chunk1 1 = Some 0"
    by (simp_all add: ex_chunk1_def)
  have "slot_id_to_index ex_chunk1 5 \<noteq> slot_id_to_index ?c 5"
    using b by simp
  then have c: "ex_chunk1 \<noteq> ?c"
    by metis
  show ?thesis using b c by (simp add: a)
qed

subsection \<open>The binding loop, in closed form\<close>

lemma bind_slots_char:
  "idx \<le> length arr \<Longrightarrow>
   bind_slots c name ss (arr, idx) =
     (let ms = map (\<lambda>s. get_column_by_slot_id c (slot_id s)) (filter (\<lambda>s. col_name s = name) ss)
      in if idx + length ms \<le> length arr
         then Inr (take idx arr @ ms @ drop (idx + length ms) arr, idx + length ms)
         else Inl IndexOutOfRange)"
proof (induction ss arbitrary: arr idx)
  case Nil
  then show ?case by simp
next
  case (Cons s ss)
  show ?case
  proof (cases "col_name s = name")
    case False
    then show ?thesis using Cons by simp
  next
    case True
    show ?thesis
    proof (cases "idx < length arr")
      case False
      then show ?thesis using True Cons.prems by (simp add: Let_def)
    next
      case lt: True
      let ?x = "get_column_by_slot_id c (slot_id s)"
      have t: "take (Suc idx) (arr[idx := ?x]) = take idx arr @ [?x]"
        using lt by (simp add: take_Suc_conv_app_nth)
      have d: "drop (Suc (idx + n)) (arr[idx := ?x]) = drop (Suc (idx + n)) arr" for n
        by simp
      have "Suc idx \<le> length (arr[idx := ?x])" using lt by simp
      from Cons.IH [OF this] show ?thesis
        using True lt by (simp add: Let_def t d)
    qed
  qed
qed

lemma bind_columns_char:
  "idx \<le> length arr \<Longrightarrow>
   bind_columns c slots pcs (arr, idx) =
     (if idx + length (bound_columns c slots pcs) \<le> length arr
      then Inr (take idx arr @ bound_columns c slots pcs
                  @ drop (idx + length (bound_columns c slots pcs)) arr,
                idx + length (bound_columns c slots pcs))
      else Inl IndexOutOfRange)"
proof (induction pcs arbitrary: arr idx)
  case Nil
  then show ?case by (simp add: bound_columns_def)
next
  case (Cons pc pcs)
  define ms where "ms = map (\<lambda>s. get_column_by_slot_id c (slot_id s)) (matching_slots slots pc)"
  define B where "B = bound_columns c slots pcs"
  have b: "bound_columns c slots (pc # pcs) = ms @ B"
    by (simp add: bound_columns_def ms_def B_def)
  have bs: "bind_slots c (columnName pc) slots (arr, idx) =
      (if idx + length ms \<le> length arr
       then Inr (take idx arr @ ms @ drop (idx + length ms) arr, idx + length ms)
       else Inl IndexOutOfRange)"
    using Cons.prems by (simp add: bind_slots_char Let_def matching_slots_def ms_def)
  show ?case
  proof (cases "idx + length ms \<le> length arr")
    case False
    then show ?thesis
      unfolding b using bs by simp
  next
    case True
    define arr' where "arr' = take idx arr @ ms @ drop (idx + length ms) arr"
    have s: "bind_slots c (columnName pc) slots (arr, idx) = Inr (arr', idx + length ms)"
      using bs True by (simp add: arr'_def)
    have l: "length arr' = length arr" using True Cons.prems by (simp add: arr'_def)
    have le: "idx + length ms \<le> length arr'" using True l by simp
    have t: "take (idx + length ms) arr' = take idx arr @ ms"
      using Cons.prems by (simp add: arr'_def)
    have d: "drop (idx + length ms + length B) arr' = drop (idx + length ms + length B) arr"
      using Cons.prems True by (simp add: arr'_def min_def add.commute add.left_commute)
    have ih: "bind_columns c slots pcs (arr', idx + length ms) =
       (if idx + length ms + length B \<le> length arr
        then Inr ((take idx arr @ ms) @ B @ drop (idx + length ms + length B) arr,
                  idx + length ms + length B)
        else Inl IndexOutOfRange)"
      using Cons.IH [OF le] unfolding B_def [symmetric] l t d .
    have "bind_columns c slots (pc # pcs) (arr, idx) = bind_columns c slots pcs (arr', idx + length ms)"
      by (simp add: s)
    then show ?thesis
      unfolding b ih by (simp add: add.assoc)
  qed
qed

lemma bind_partition_columns_char:
  "bind_partition_columns c slots pcs =
     (if length (bound_columns c slots pcs) \<le> length pcs
      then Inr (bound_columns c slots pcs @ replicate (length pcs - length (bound_columns c slots pcs)) None)
      else Inl IndexOutOfRange)"
  by (simp add: bind_partition_columns_def bind_columns_char)

lemma bind_length:
  assumes "bind_partition_columns c slots pcs = Inr arr"
  shows "length arr = length pcs"
proof -
  have "length (bound_columns c slots pcs) \<le> length pcs"
    and "arr = bound_columns c slots pcs @ replicate (length pcs - length (bound_columns c slots pcs)) None"
    using assms by (auto simp: bind_partition_columns_char split: if_splits)
  then show ?thesis by simp
qed

subsection \<open>Deriving keys\<close>

lemma send_chunk_routed:
  "send_chunk S L e st c =
     (case routed_chunk S e c of
        Inl r \<Rightarrow> (r, st, c)
      | Inr oc \<Rightarrow> (fst (route_chunk S L e st oc), snd (route_chunk S L e st oc),
                   if num_output_exprs S \<noteq> 0 then c else oc))"
  by (auto simp: send_chunk_def routed_chunk_def Let_def split: sum.splits prod.splits)

lemma derive_key_Inr_day:
  "derive_key e arr pcs idx i key = Inr k \<Longrightarrow> \<forall>pc \<in> set pcs. transform pc = ''day''"
  by (induction pcs arbitrary: idx key) (auto split: if_splits option.splits)

lemma derive_key_Inl_not_OK:
  "derive_key e arr pcs idx i key = Inl r \<Longrightarrow> r \<noteq> Returned OK"
  by (induction pcs arbitrary: idx key) (auto split: if_splits option.splits)

lemma derive_key_prefix_bound:
  assumes "\<exists>pc \<in> set pcs. transform pc \<noteq> ''day''"
      and "\<forall>j. idx \<le> j \<and> j < idx + length (day_prefix pcs)
             \<longrightarrow> (\<exists>col. nth_opt arr j = Some (Some col) \<and> i < length col)"
  shows "derive_key e arr pcs idx i key
           = Inl (Returned (NotSupported (''unsupported transform '' @ first_unsupported pcs)))"
  using assms
proof (induction pcs arbitrary: idx key)
  case Nil
  then show ?case by simp
next
  case (Cons pc pcs)
  show ?case
  proof (cases "transform pc = ''day''")
    case False
    then show ?thesis by (simp add: first_unsupported_def)
  next
    case True
    have dp: "day_prefix (pc # pcs) = pc # day_prefix pcs"
      using True by (simp add: day_prefix_def)
    obtain col where col: "nth_opt arr idx = Some (Some col)" "i < length col"
      using Cons.prems(2) unfolding dp by force
    have rest: "\<exists>pc \<in> set pcs. transform pc \<noteq> ''day''"
      using Cons.prems(1) True by auto
    have acc: "\<forall>j. Suc idx \<le> j \<and> j < Suc idx + length (day_prefix pcs) \<longrightarrow>
                 (\<exists>col. nth_opt arr j = Some (Some col) \<and> i < length col)"
    proof (intro allI impI)
      fix j
      assume "Suc idx \<le> j \<and> j < Suc idx + length (day_prefix pcs)"
      then have "idx \<le> j \<and> j < idx + length (day_prefix (pc # pcs))" unfolding dp by simp
      then show "\<exists>col. nth_opt arr j = Some (Some col) \<and> i < length col"
        using Cons.prems(2) by blast
    qed
    have f: "first_unsupported (pc # pcs) = first_unsupported pcs"
      using True by (simp add: first_unsupported_def)
    show ?thesis
      using True col Cons.IH [OF rest acc] by (simp add: f nth_opt_def)
  qed
qed

lemma derive_key_prefix_unbound:
  assumes "\<exists>j. idx \<le> j \<and> j < idx + length (day_prefix pcs)
             \<and> \<not> (\<exists>col. nth_opt arr j = Some (Some col) \<and> i < length col)"
  shows "\<exists>f. derive_key e arr pcs idx i key = Inl (Undefined f)"
  using assms
proof (induction pcs arbitrary: idx key)
  case Nil
  then show ?case by (auto simp: day_prefix_def)
next
  case (Cons pc pcs)
  show ?case
  proof (cases "transform pc = ''day''")
    case False
    then show ?thesis using Cons.prems by (auto simp: day_prefix_def)
  next
    case True
    have dp: "day_prefix (pc # pcs) = pc # day_prefix pcs"
      using True by (simp add: day_prefix_def)
    show ?thesis
    proof (cases "\<exists>col. nth_opt arr idx = Some (Some col) \<and> i < length col")
      case False
      then show ?thesis using True
        by (auto simp: nth_opt_def split: option.splits)
    next
      case ok: True
      then obtain col where col: "nth_opt arr idx = Some (Some col)" "i < length col" by blast
      obtain j where j: "idx \<le> j" "j < idx + length (day_prefix (pc # pcs))"
          "\<not> (\<exists>col. nth_opt arr j = Some (Some col) \<and> i < length col)"
        using Cons.prems by blast
      have "j \<noteq> idx" using j(3) ok by blast
      then have "\<exists>j. Suc idx \<le> j \<and> j < Suc idx + length (day_prefix pcs)
             \<and> \<not> (\<exists>col. nth_opt arr j = Some (Some col) \<and> i < length col)"
        using j unfolding dp by (intro exI [of _ j]) simp
      then have "\<exists>f. derive_key e arr pcs (Suc idx) i k' = Inl (Undefined f)" for k'
        by (rule Cons.IH)
      then show ?thesis using True col by (simp add: nth_opt_def)
    qed
  qed
qed

lemma derive_key_null:
  assumes "\<forall>pc \<in> set pcs. transform pc = ''day''"
      and "\<exists>j. idx \<le> j \<and> j < idx + length pcs \<and> nth_opt arr j = Some None"
      and "\<forall>j col. idx \<le> j \<and> j < idx + length pcs \<and> nth_opt arr j = Some (Some col) \<longrightarrow> i < length col"
      and "idx + length pcs \<le> length arr"
  shows "derive_key e arr pcs idx i key = Inl (Undefined NullColumn)"
  using assms
proof (induction pcs arbitrary: idx key)
  case Nil
  then show ?case by force
next
  case (Cons pc pcs)
  have day: "transform pc = ''day''" using Cons.prems(1) by simp
  have inr: "idx < length arr" using Cons.prems(4) by simp
  show ?case
  proof (cases "arr ! idx")
    case None
    then show ?thesis using day inr by (simp add: nth_opt_def)
  next
    case (Some col)
    then have "nth_opt arr idx = Some (Some col)"
      using inr by (simp add: nth_opt_def)
    then have row: "i < length col"
      using Cons.prems(3) [rule_format, of idx col] by simp
    obtain j where j: "idx \<le> j" "j < idx + length (pc # pcs)" "nth_opt arr j = Some None"
      using Cons.prems(2) by blast
    have "j \<noteq> idx" using j(3) Some inr by (auto simp: nth_opt_def)
    then have a2: "\<exists>j. Suc idx \<le> j \<and> j < Suc idx + length pcs \<and> nth_opt arr j = Some None"
      using j by (intro exI [of _ j]) simp
    have a3: "\<forall>j col. Suc idx \<le> j \<and> j < Suc idx + length pcs \<and> nth_opt arr j = Some (Some col)
                \<longrightarrow> i < length col"
    proof (intro allI impI)
      fix j col
      assume "Suc idx \<le> j \<and> j < Suc idx + length pcs \<and> nth_opt arr j = Some (Some col)"
      then have "idx \<le> j \<and> j < idx + length (pc # pcs) \<and> nth_opt arr j = Some (Some col)"
        by simp
      then show "i < length col" using Cons.prems(3) by blast
    qed
    have "derive_key e arr pcs (Suc idx) i k' = Inl (Undefined NullColumn)" for k'
      using Cons.IH [OF _ a2 a3] Cons.prems(1,4) by simp
    then show ?thesis using day inr Some row by (simp add: nth_opt_def)
  qed
qed

lemma derive_key_null_or_range:
  assumes "\<forall>pc \<in> set pcs. transform pc = ''day''"
      and "\<exists>j. idx \<le> j \<and> j < idx + length pcs \<and> nth_opt arr j = Some None"
  shows "derive_key e arr pcs idx i key = Inl (Undefined NullColumn)
       \<or> derive_key e arr pcs idx i key = Inl (Undefined IndexOutOfRange)"
  using assms
proof (induction pcs arbitrary: idx key)
  case Nil
  then show ?case by force
next
  case (Cons pc pcs)
  have day: "transform pc = ''day''" using Cons.prems(1) by simp
  show ?case
  proof (cases "nth_opt arr idx")
    case None
    then show ?thesis using day by simp
  next
    case (Some entry)
    show ?thesis
    proof (cases entry)
      case None
      then show ?thesis using day Some by simp
    next
      case (Some col)
      note col = this
      show ?thesis
      proof (cases "nth_opt col i")
        case None
        then show ?thesis using day \<open>nth_opt arr idx = Some entry\<close> col by simp
      next
        case (Some v)
        obtain j where j: "idx \<le> j" "j < idx + length (pc # pcs)" "nth_opt arr j = Some None"
          using Cons.prems(2) by blast
        have "j \<noteq> idx" using j(3) \<open>nth_opt arr idx = Some entry\<close> col by auto
        then have a2: "\<exists>j. Suc idx \<le> j \<and> j < Suc idx + length pcs \<and> nth_opt arr j = Some None"
          using j by (intro exI [of _ j]) simp
        have "derive_key e arr pcs (Suc idx) i k' = Inl (Undefined NullColumn)
            \<or> derive_key e arr pcs (Suc idx) i k' = Inl (Undefined IndexOutOfRange)" for k'
          using Cons.IH [OF _ a2] Cons.prems(1) by simp
        then show ?thesis
          using day \<open>nth_opt arr idx = Some entry\<close> col Some by simp
      qed
    qed
  qed
qed

lemma derive_key_no_null:
  assumes "\<forall>j. idx \<le> j \<and> j < idx + length pcs \<longrightarrow> (\<exists>col. nth_opt arr j = Some (Some col))"
  shows "derive_key e arr pcs idx i key \<noteq> Inl (Undefined NullColumn)"
  using assms
proof (induction pcs arbitrary: idx key)
  case Nil
  then show ?case by simp
next
  case (Cons pc pcs)
  obtain col where col: "nth_opt arr idx = Some (Some col)"
    using Cons.prems by force
  have "\<forall>j. Suc idx \<le> j \<and> j < Suc idx + length pcs \<longrightarrow> (\<exists>col. nth_opt arr j = Some (Some col))"
  proof (intro allI impI)
    fix j
    assume "Suc idx \<le> j \<and> j < Suc idx + length pcs"
    then have "idx \<le> j \<and> j < idx + length (pc # pcs)" by simp
    then show "\<exists>col. nth_opt arr j = Some (Some col)" using Cons.prems by blast
  qed
  then have "derive_key e arr pcs (Suc idx) i k' \<noteq> Inl (Undefined NullColumn)" for k'
    by (rule Cons.IH)
  then show ?case using col by (auto split: option.splits)
qed

lemma assign_rows_no_null:
  assumes "\<And>i. derive_key e arr pcs 0 i [] \<noteq> Inl (Undefined NullColumn)"
  shows "assign_rows L e arr pcs rows acc \<noteq> Inl (Undefined NullColumn)"
proof (induction rows arbitrary: acc)
  case Nil
  then show ?case by simp
next
  case (Cons i rows)
  show ?case
    using assms [of i] Cons.IH
    by (cases acc) (auto simp: Let_def split: sum.splits)
qed

lemma write_to_partition_no_null: "fst (write_to_partition S e st c k) \<noteq> Undefined NullColumn"
  by (auto simp: write_to_partition_def split: prod.splits if_splits option.splits)

lemma write_partitions_no_null:
  "fst (write_partitions S L e c kv refs js st) \<noteq> Undefined NullColumn"
proof (induction js arbitrary: st)
  case Nil
  then show ?case by simp
next
  case (Cons j js)
  show ?case
  proof (cases "append_selective c (select_rows refs (data_ptr L kv j))")
    case (Inl f)
    then show ?thesis
      by (auto simp: Let_def append_selective_def split: if_splits)
  next
    case (Inr cur)
    obtain r1 st1 where w: "write_to_partition S e st cur (keys_of kv ! j) = (r1, st1)"
      by (cases "write_to_partition S e st cur (keys_of kv ! j)") auto
    then have "r1 \<noteq> Undefined NullColumn"
      using write_to_partition_no_null [of S e st cur "keys_of kv ! j"] by simp
    then show ?thesis
      using Inr w Cons.IH [of st1]
      by (cases r1) (auto simp: Let_def)
  qed
qed

lemma upt_rows: "0 < n \<Longrightarrow> [0 ..< n] = 0 # [1 ..< n]"
  by (simp add: upt_conv_Cons)

lemma route_chunk_derive_fails:
  assumes "bind_partition_columns c (output_slots S) (partitionColumns (t_iceberg_sink S)) = Inr arr"
      and "0 < num_rows c"
      and "derive_key e arr (partitionColumns (t_iceberg_sink S)) 0 0 [] = Inl r"
  shows "route_chunk S L e st c = (r, st)"
  using assms by (simp add: route_chunk_def Let_def upt_rows)

lemma route_chunk_no_rows:
  assumes "bind_partition_columns c (output_slots S) (partitionColumns (t_iceberg_sink S)) = Inr arr"
      and "num_rows c = 0"
  shows "route_chunk S L e st c = (Returned OK, st)"
  using assms by (simp add: route_chunk_def Let_def keys_of_def empty_vector_def)

lemma route_chunk_bind_fails:
  assumes "bind_partition_columns c (output_slots S) (partitionColumns (t_iceberg_sink S)) = Inl f"
  shows "route_chunk S L e st c = (Undefined f, st)"
  using assms by (simp add: route_chunk_def Let_def)

lemma route_unsupported_state:
  assumes uns: "\<exists>pc \<in> set (partitionColumns (t_iceberg_sink S)). transform pc \<noteq> ''day''"
  shows "snd (route_chunk S L e st c) = st"
proof (cases "bind_partition_columns c (output_slots S) (partitionColumns (t_iceberg_sink S))")
  case (Inl f)
  then show ?thesis by (simp add: route_chunk_bind_fails)
next
  case (Inr a)
  show ?thesis
  proof (cases "num_rows c = 0")
    case True
    then show ?thesis using Inr by (simp add: route_chunk_no_rows)
  next
    case False
    then have rows: "0 < num_rows c" by simp
    obtain r where r: "derive_key e a (partitionColumns (t_iceberg_sink S)) 0 0 [] = Inl r"
      using derive_key_Inr_day [of e a "partitionColumns (t_iceberg_sink S)" 0 0 "[]"] uns
      by (cases "derive_key e a (partitionColumns (t_iceberg_sink S)) 0 0 []") auto
    show ?thesis using route_chunk_derive_fails [OF Inr rows r] by simp
  qed
qed

lemma route_unsupported_outcome:
  assumes uns: "\<exists>pc \<in> set (partitionColumns (t_iceberg_sink S)). transform pc \<noteq> ''day''"
      and rows: "0 < num_rows c"
      and b: "bind_partition_columns c (output_slots S) (partitionColumns (t_iceberg_sink S)) = Inr arr"
  shows "(\<forall>j < length (day_prefix (partitionColumns (t_iceberg_sink S))).
             \<exists>col. arr ! j = Some col \<and> 0 < length col)
         \<Longrightarrow> fst (route_chunk S L e st c)
              = Returned (NotSupported (''unsupported transform ''
                  @ first_unsupported (partitionColumns (t_iceberg_sink S))))"
    and "\<not> (\<forall>j < length (day_prefix (partitionColumns (t_iceberg_sink S))).
             \<exists>col. arr ! j = Some col \<and> 0 < length col)
         \<Longrightarrow> \<exists>f. fst (route_chunk S L e st c) = Undefined f"
proof -
  let ?pcs = "partitionColumns (t_iceberg_sink S)"
  have len: "length arr = length ?pcs"
    using b by (rule bind_length)
  have dl: "length (day_prefix ?pcs) \<le> length arr"
    unfolding len day_prefix_def by (rule length_takeWhile_le)
  {
    assume bound: "\<forall>j < length (day_prefix ?pcs). \<exists>col. arr ! j = Some col \<and> 0 < length col"
    have "\<forall>j. 0 \<le> j \<and> j < 0 + length (day_prefix ?pcs)
            \<longrightarrow> (\<exists>col. nth_opt arr j = Some (Some col) \<and> 0 < length col)"
      using bound dl by (simp add: nth_opt_def)
    then have "derive_key e arr ?pcs 0 0 []
        = Inl (Returned (NotSupported (''unsupported transform '' @ first_unsupported ?pcs)))"
      using uns by (intro derive_key_prefix_bound) simp_all
    then show "fst (route_chunk S L e st c)
                = Returned (NotSupported (''unsupported transform '' @ first_unsupported ?pcs))"
      using route_chunk_derive_fails [OF b rows] by simp
  }
  {
    assume "\<not> (\<forall>j < length (day_prefix ?pcs). \<exists>col. arr ! j = Some col \<and> 0 < length col)"
    then obtain j where j: "j < length (day_prefix ?pcs)" "\<not> (\<exists>col. arr ! j = Some col \<and> 0 < length col)"
      by blast
    have "\<not> (\<exists>col. nth_opt arr j = Some (Some col) \<and> 0 < length col)"
      using j dl by (simp add: nth_opt_def)
    then have "\<exists>j. 0 \<le> j \<and> j < 0 + length (day_prefix ?pcs)
             \<and> \<not> (\<exists>col. nth_opt arr j = Some (Some col) \<and> 0 < length col)"
      using j(1) by (intro exI [of _ j]) simp
    then obtain f where "derive_key e arr ?pcs 0 0 [] = Inl (Undefined f)"
      using derive_key_prefix_unbound [of 0 ?pcs arr 0 e "[]"] by blast
    then show "\<exists>f. fst (route_chunk S L e st c) = Undefined f"
      using route_chunk_derive_fails [OF b rows] by simp
  }
qed

text \<open>
  C8, as the code has it. Some partition column has a transform other than \<open>day\<close>, and
  \<open>send_chunk\<close> gets as far as partitioning a chunk \<open>oc\<close>. Then the call leaves the state
  of the sink as it was (no writer is created, no chunk is appended), and no row ever
  gets a key. What it returns is decided by the binding and by the first row. If the
  binding overruns the array, the call ends in that fault. If the chunk has a row and
  every partition column before the first one that is not \<open>day\<close> is bound to a column
  that holds that row, it returns \<open>NotSupported\<close> with the message
  \<open>unsupported transform\<close> followed by that transform. If the chunk has a row and one of
  those earlier columns is null or does not hold the row, reading it is undefined and
  nothing is returned. If the chunk has no row, it returns OK.
\<close>

theorem unsupported_transform_aborts_batch:
  assumes "\<exists>pc \<in> set (partitionColumns (t_iceberg_sink S)). transform pc \<noteq> ''day''"
      and "routed_chunk S e c = Inr oc"
  shows "fst (snd (send_chunk S L e st c)) = st
       \<and> (\<forall>arr i key k. derive_key e arr (partitionColumns (t_iceberg_sink S)) 0 i key \<noteq> Inr k)
       \<and> (\<forall>f. bind_partition_columns oc (output_slots S) (partitionColumns (t_iceberg_sink S)) = Inl f
             \<longrightarrow> fst (send_chunk S L e st c) = Undefined f)
       \<and> (\<forall>arr. bind_partition_columns oc (output_slots S) (partitionColumns (t_iceberg_sink S)) = Inr arr
               \<and> 0 < num_rows oc
               \<and> (\<forall>j < length (day_prefix (partitionColumns (t_iceberg_sink S))).
                     \<exists>col. arr ! j = Some col \<and> 0 < length col)
             \<longrightarrow> fst (send_chunk S L e st c)
                   = Returned (NotSupported (''unsupported transform ''
                       @ first_unsupported (partitionColumns (t_iceberg_sink S)))))
       \<and> (\<forall>arr. bind_partition_columns oc (output_slots S) (partitionColumns (t_iceberg_sink S)) = Inr arr
               \<and> 0 < num_rows oc
               \<and> \<not> (\<forall>j < length (day_prefix (partitionColumns (t_iceberg_sink S))).
                     \<exists>col. arr ! j = Some col \<and> 0 < length col)
             \<longrightarrow> (\<exists>f. fst (send_chunk S L e st c) = Undefined f))
       \<and> (\<forall>arr. bind_partition_columns oc (output_slots S) (partitionColumns (t_iceberg_sink S)) = Inr arr
               \<and> num_rows oc = 0
             \<longrightarrow> fst (send_chunk S L e st c) = Returned OK)"
proof -
  let ?pcs = "partitionColumns (t_iceberg_sink S)"
  have s: "send_chunk S L e st c
      = (fst (route_chunk S L e st oc), snd (route_chunk S L e st oc),
         if num_output_exprs S \<noteq> 0 then c else oc)"
    using assms(2) by (simp add: send_chunk_routed)
  have f: "fst (send_chunk S L e st c) = fst (route_chunk S L e st oc)"
    and g: "fst (snd (send_chunk S L e st c)) = snd (route_chunk S L e st oc)"
    by (simp_all add: s)
  have d: "derive_key e arr ?pcs 0 i key \<noteq> Inr k" for arr i key k
    using derive_key_Inr_day [of e arr ?pcs 0 i key k] assms(1) by blast
  have r1: "snd (route_chunk S L e st oc) = st"
    using assms(1) by (rule route_unsupported_state)
  have r2: "fst (route_chunk S L e st oc) = Undefined f"
    if "bind_partition_columns oc (output_slots S) ?pcs = Inl f" for f
    using that by (simp add: route_chunk_bind_fails)
  have r3: "fst (route_chunk S L e st oc)
              = Returned (NotSupported (''unsupported transform '' @ first_unsupported ?pcs))"
    if "bind_partition_columns oc (output_slots S) ?pcs = Inr arr \<and> 0 < num_rows oc
        \<and> (\<forall>j < length (day_prefix ?pcs). \<exists>col. arr ! j = Some col \<and> 0 < length col)" for arr
  proof -
    from that have a: "bind_partition_columns oc (output_slots S) ?pcs = Inr arr"
      and b: "0 < num_rows oc"
      and c: "\<forall>j < length (day_prefix ?pcs). \<exists>col. arr ! j = Some col \<and> 0 < length col"
      by simp_all
    show ?thesis by (rule route_unsupported_outcome(1) [OF assms(1) b a c])
  qed
  have r4: "\<exists>f. fst (route_chunk S L e st oc) = Undefined f"
    if "bind_partition_columns oc (output_slots S) ?pcs = Inr arr \<and> 0 < num_rows oc
        \<and> \<not> (\<forall>j < length (day_prefix ?pcs). \<exists>col. arr ! j = Some col \<and> 0 < length col)" for arr
  proof -
    from that have a: "bind_partition_columns oc (output_slots S) ?pcs = Inr arr"
      and b: "0 < num_rows oc"
      and c: "\<not> (\<forall>j < length (day_prefix ?pcs). \<exists>col. arr ! j = Some col \<and> 0 < length col)"
      by simp_all
    show ?thesis by (rule route_unsupported_outcome(2) [OF assms(1) b a c])
  qed
  have r5: "fst (route_chunk S L e st oc) = Returned OK"
    if "bind_partition_columns oc (output_slots S) ?pcs = Inr arr \<and> num_rows oc = 0" for arr
    using route_chunk_no_rows [of oc S arr L e st] that by simp
  show ?thesis
    unfolding f g using r1 r2 r3 r4 r5 d by blast
qed

text \<open>
  The column \<open>ts\<close> by day and by hour: a chunk of one row is refused with
  \<open>unsupported transform hour\<close> and nothing is written; a chunk without rows is accepted.
\<close>

theorem unsupported_transform_aborts_batch_witness:
  "(\<exists>pc \<in> set (partitionColumns (t_iceberg_sink ex_sink_day_hour)). transform pc \<noteq> ''day'')
   \<and> routed_chunk ex_sink_day_hour ex_env ex_chunk1 = Inr ex_chunk1
   \<and> bind_partition_columns ex_chunk1 (output_slots ex_sink_day_hour)
        (partitionColumns (t_iceberg_sink ex_sink_day_hour))
        = Inr [Some [1704067800], Some [1704067800]]
   \<and> 0 < num_rows ex_chunk1
   \<and> length (day_prefix (partitionColumns (t_iceberg_sink ex_sink_day_hour))) = 1
   \<and> fst (snd (send_chunk ex_sink_day_hour libstdcxx ex_env initial_state ex_chunk1)) = initial_state
   \<and> fst (send_chunk ex_sink_day_hour libstdcxx ex_env initial_state ex_chunk1)
        = Returned (NotSupported ''unsupported transform hour'')
   \<and> routed_chunk ex_sink_day_hour ex_env ex_chunk0 = Inr ex_chunk0
   \<and> bind_partition_columns ex_chunk0 (output_slots ex_sink_day_hour)
        (partitionColumns (t_iceberg_sink ex_sink_day_hour)) = Inr [Some [], Some []]
   \<and> num_rows ex_chunk0 = 0
   \<and> fst (send_chunk ex_sink_day_hour libstdcxx ex_env initial_state ex_chunk0) = Returned OK"
proof -
  let ?pcs = "partitionColumns (t_iceberg_sink ex_sink_day_hour)"
  let ?arr = "[Some [1704067800 :: int], Some [1704067800]]"
  have a: "\<exists>pc \<in> set ?pcs. transform pc \<noteq> ''day''"
    by (simp add: ex_sink_day_hour_def)
  have b: "routed_chunk ex_sink_day_hour ex_env ex_chunk1 = Inr ex_chunk1"
    by (simp add: routed_chunk_def ex_sink_day_hour_def ex_sink_def reindex_slots_def ex_chunk1_def)
  have b0: "routed_chunk ex_sink_day_hour ex_env ex_chunk0 = Inr ex_chunk0"
    by (simp add: routed_chunk_def ex_sink_day_hour_def ex_sink_def reindex_slots_def ex_chunk0_def)
  have c: "0 < num_rows ex_chunk1" "num_rows ex_chunk0 = 0"
    by (simp_all add: num_rows_def ex_chunk1_def ex_chunk0_def)
  have d: "bind_partition_columns ex_chunk1 (output_slots ex_sink_day_hour) ?pcs = Inr ?arr"
    by (simp add: ex_sink_day_hour_def ex_sink_def ex_chunk1_def bind_partition_columns_def
          get_column_by_slot_id_def nth_opt_def)
  have d0: "bind_partition_columns ex_chunk0 (output_slots ex_sink_day_hour) ?pcs = Inr [Some [], Some []]"
    by (simp add: ex_sink_day_hour_def ex_sink_def ex_chunk0_def bind_partition_columns_def
          get_column_by_slot_id_def nth_opt_def)
  have p: "length (day_prefix ?pcs) = 1"
    by (simp add: day_prefix_def ex_sink_day_hour_def)
  have f: "first_unsupported ?pcs = ''hour''"
    by (simp add: first_unsupported_def ex_sink_day_hour_def)
  have g: "bind_partition_columns ex_chunk1 (output_slots ex_sink_day_hour) ?pcs = Inr ?arr
           \<and> 0 < num_rows ex_chunk1
           \<and> (\<forall>j < length (day_prefix ?pcs). \<exists>col. ?arr ! j = Some col \<and> 0 < length col)"
    using d c(1) by (simp add: p)
  have g0: "bind_partition_columns ex_chunk0 (output_slots ex_sink_day_hour) ?pcs = Inr [Some [], Some []]
           \<and> num_rows ex_chunk0 = 0"
    using d0 c(2) by simp
  have "fst (snd (send_chunk ex_sink_day_hour libstdcxx ex_env initial_state ex_chunk1)) = initial_state
      \<and> fst (send_chunk ex_sink_day_hour libstdcxx ex_env initial_state ex_chunk1)
          = Returned (NotSupported (''unsupported transform '' @ first_unsupported ?pcs))"
    using unsupported_transform_aborts_batch [OF a b, of libstdcxx initial_state] g by blast
  moreover have "fst (send_chunk ex_sink_day_hour libstdcxx ex_env initial_state ex_chunk0) = Returned OK"
    using unsupported_transform_aborts_batch [OF a b0, of libstdcxx initial_state] g0 by blast
  ultimately show ?thesis using a b b0 c d d0 p by (simp add: f)
qed

text \<open>
  C8 as stated fails in four ways. With an \<open>hour\<close> transform a chunk without rows is
  sent with OK. With a \<open>day\<close> column that no slot is named after in front of the \<open>hour\<close>
  column, the first row dereferences the null column before the transform of the second
  column is looked at, and no error is returned. With an output expression that fails,
  the error returned is that of the expression. With two slots named after the one
  partition column, the binding loop stores beyond the end of the array.
\<close>

theorem unsupported_transform_counterexample:
  "(\<exists>pc \<in> set (partitionColumns (t_iceberg_sink ex_sink_hour)). transform pc \<noteq> ''day'')
   \<and> num_rows ex_chunk0 = 0
   \<and> send_chunk ex_sink_hour libstdcxx ex_env initial_state ex_chunk0
        = (Returned OK, initial_state, ex_chunk0)
   \<and> (\<exists>pc \<in> set (partitionColumns (t_iceberg_sink ex_sink_null_hour)). transform pc \<noteq> ''day'')
   \<and> 0 < num_rows ex_chunk1
   \<and> send_chunk ex_sink_null_hour libstdcxx ex_env initial_state ex_chunk1
        = (Undefined NullColumn, initial_state, ex_chunk1)
   \<and> send_chunk (ex_sink_hour\<lparr>num_output_exprs := 1\<rparr>) libstdcxx ex_env initial_state ex_chunk1
        = (Returned (Failed ''no expression''), initial_state, ex_chunk1)
   \<and> (\<exists>pc \<in> set (partitionColumns (t_iceberg_sink ex_sink_twice_hour)). transform pc \<noteq> ''day'')
   \<and> fst (send_chunk ex_sink_twice_hour libstdcxx ex_env initial_state ex_chunk_two)
        = Undefined IndexOutOfRange"
proof -
  have d: "fst (send_chunk ex_sink_twice_hour libstdcxx ex_env initial_state ex_chunk_two)
        = Undefined IndexOutOfRange"
    by (simp add: send_defs ex_sink_twice_hour_def ex_sink_hour_def ex_chunk_two_def initial_state_def)
  have a: "send_chunk ex_sink_hour libstdcxx ex_env initial_state ex_chunk0
        = (Returned OK, initial_state, ex_chunk0)"
    by (simp add: send_defs ex_sink_hour_def ex_chunk0_def initial_state_def)
  have b: "send_chunk ex_sink_null_hour libstdcxx ex_env initial_state ex_chunk1
        = (Undefined NullColumn, initial_state, ex_chunk1)"
    by (simp add: send_defs ex_sink_null_hour_def ex_chunk1_def initial_state_def)
  have c: "send_chunk (ex_sink_hour\<lparr>num_output_exprs := 1\<rparr>) libstdcxx ex_env initial_state ex_chunk1
        = (Returned (Failed ''no expression''), initial_state, ex_chunk1)"
    by (simp add: send_chunk_def ex_sink_hour_def ex_sink_def ex_env_def)
  show ?thesis
    unfolding a b c d
    by (simp add: ex_sink_hour_def ex_sink_null_hour_def ex_sink_twice_hour_def num_rows_def
          ex_chunk0_def ex_chunk1_def)
qed

subsection \<open>Which columns the rows are read from\<close>

lemma length_bound_columns:
  "length (bound_columns c slots pcs) = sum_list (map (\<lambda>pc. length (matching_slots slots pc)) pcs)"
  by (induction pcs) (simp_all add: bound_columns_def)

lemma sum_list_at_most_one:
  "\<forall>x \<in> set xs. f x \<le> (1::nat) \<Longrightarrow> sum_list (map f xs) \<le> length xs"
  by (induction xs) auto

lemma sum_list_one_missing:
  "\<forall>x \<in> set xs. f x \<le> (1::nat) \<Longrightarrow> \<exists>x \<in> set xs. f x = 0 \<Longrightarrow> sum_list (map f xs) < length xs"
proof (induction xs)
  case Nil
  then show ?case by simp
next
  case (Cons a xs)
  have le: "sum_list (map f xs) \<le> length xs"
    using Cons.prems(1) by (intro sum_list_at_most_one) simp
  show ?case
  proof (cases "f a = 0")
    case True
    then show ?thesis using le by simp
  next
    case False
    then have "\<exists>x \<in> set xs. f x = 0" using Cons.prems(2) by auto
    then have "sum_list (map f xs) < length xs" using Cons.IH Cons.prems(1) by simp
    moreover have "f a \<le> 1" using Cons.prems(1) by simp
    ultimately show ?thesis by simp
  qed
qed

lemma bound_columns_exactly_one:
  "\<forall>pc \<in> set pcs. length (matching_slots slots pc) = 1 \<Longrightarrow>
   bound_columns c slots pcs
     = map (\<lambda>pc. get_column_by_slot_id c (slot_id (hd (matching_slots slots pc)))) pcs"
proof (induction pcs)
  case Nil
  then show ?case by (simp add: bound_columns_def)
next
  case (Cons pc pcs)
  have "length (matching_slots slots pc) = 1" using Cons.prems by simp
  then obtain s where s: "matching_slots slots pc = [s]"
    by (cases "matching_slots slots pc") auto
  have "bound_columns c slots pcs
     = map (\<lambda>pc. get_column_by_slot_id c (slot_id (hd (matching_slots slots pc)))) pcs"
    using Cons by simp
  then show ?case by (simp add: bound_columns_def s)
qed

lemma route_chunk_no_null:
  assumes "bind_partition_columns c (output_slots S) (partitionColumns (t_iceberg_sink S)) = Inr arr"
      and "\<forall>j < length arr. \<exists>col. arr ! j = Some col"
  shows "fst (route_chunk S L e st c) \<noteq> Undefined NullColumn"
proof -
  let ?pcs = "partitionColumns (t_iceberg_sink S)"
  have len: "length arr = length ?pcs"
    using assms(1) by (auto simp: bind_partition_columns_char split: if_splits)
  have "\<forall>j. 0 \<le> j \<and> j < 0 + length ?pcs \<longrightarrow> (\<exists>col. nth_opt arr j = Some (Some col))"
    using assms(2) len by (simp add: nth_opt_def)
  then have "derive_key e arr ?pcs 0 i [] \<noteq> Inl (Undefined NullColumn)" for i
    by (rule derive_key_no_null)
  then have a: "assign_rows L e arr ?pcs rows acc \<noteq> Inl (Undefined NullColumn)" for rows acc
    by (rule assign_rows_no_null)
  show ?thesis
    using assms(1) a write_to_partition_no_null write_partitions_no_null
    by (auto simp: route_chunk_def Let_def split: sum.splits prod.splits)
qed

lemma route_chunk_null:
  assumes b: "bind_partition_columns c (output_slots S) (partitionColumns (t_iceberg_sink S))
                = Inr (B @ replicate n None)"
      and n: "0 < n"
      and day: "\<forall>pc \<in> set (partitionColumns (t_iceberg_sink S)). transform pc = ''day''"
      and rows: "0 < num_rows c"
      and acc: "\<forall>col. Some col \<in> set B \<longrightarrow> 0 < length col"
  shows "route_chunk S L e st c = (Undefined NullColumn, st)"
proof -
  let ?pcs = "partitionColumns (t_iceberg_sink S)"
  let ?arr = "B @ replicate n None"
  have len: "length ?arr = length ?pcs"
    using b by (rule bind_length)
  have lb: "length B < length ?pcs" using len n by simp
  have "nth_opt ?arr (length B) = Some None"
    using n by (simp add: nth_opt_def nth_append)
  then have ex: "\<exists>j. 0 \<le> j \<and> j < 0 + length ?pcs \<and> nth_opt ?arr j = Some None"
    using lb by (intro exI [of _ "length B"]) simp
  have ac: "\<forall>j col. 0 \<le> j \<and> j < 0 + length ?pcs \<and> nth_opt ?arr j = Some (Some col) \<longrightarrow> 0 < length col"
  proof (intro allI impI)
    fix j col
    assume h: "0 \<le> j \<and> j < 0 + length ?pcs \<and> nth_opt ?arr j = Some (Some col)"
    then have "j < length ?arr" and "?arr ! j = Some col"
      by (auto simp: nth_opt_def split: if_splits)
    then have "Some col \<in> set ?arr" by (metis nth_mem)
    then have "Some col \<in> set B" by auto
    then show "0 < length col" using acc by blast
  qed
  have "derive_key e ?arr ?pcs 0 0 [] = Inl (Undefined NullColumn)"
    using day ex ac len by (intro derive_key_null) simp_all
  then show ?thesis
    using route_chunk_derive_fails [OF b rows] by simp
qed

lemma route_chunk_null_or_range:
  assumes b: "bind_partition_columns c (output_slots S) (partitionColumns (t_iceberg_sink S))
                = Inr (B @ replicate n None)"
      and n: "0 < n"
      and day: "\<forall>pc \<in> set (partitionColumns (t_iceberg_sink S)). transform pc = ''day''"
      and rows: "0 < num_rows c"
  shows "route_chunk S L e st c = (Undefined NullColumn, st)
       \<or> route_chunk S L e st c = (Undefined IndexOutOfRange, st)"
proof -
  let ?pcs = "partitionColumns (t_iceberg_sink S)"
  let ?arr = "B @ replicate n None"
  have len: "length ?arr = length ?pcs"
    using b by (rule bind_length)
  have lb: "length B < length ?pcs" using len n by simp
  have "nth_opt ?arr (length B) = Some None"
    using n by (simp add: nth_opt_def nth_append)
  then have ex: "\<exists>j. 0 \<le> j \<and> j < 0 + length ?pcs \<and> nth_opt ?arr j = Some None"
    using lb by (intro exI [of _ "length B"]) simp
  have "derive_key e ?arr ?pcs 0 0 [] = Inl (Undefined NullColumn)
      \<or> derive_key e ?arr ?pcs 0 0 [] = Inl (Undefined IndexOutOfRange)"
    using day ex by (rule derive_key_null_or_range)
  then show ?thesis
    using route_chunk_derive_fails [OF b rows] by auto
qed

lemma bound_columns_append:
  "bound_columns c slots (xs @ ys) = bound_columns c slots xs @ bound_columns c slots ys"
  by (simp add: bound_columns_def)

lemma length_bound_columns_at_most_one:
  "\<forall>pc \<in> set xs. length (matching_slots slots pc) \<le> 1 \<Longrightarrow>
   length (bound_columns c slots xs) + length (filter (\<lambda>pc. matching_slots slots pc = []) xs) = length xs"
proof (induction xs)
  case Nil
  then show ?case by (simp add: bound_columns_def)
next
  case (Cons a xs)
  have b: "bound_columns c slots (a # xs)
      = map (\<lambda>s. get_column_by_slot_id c (slot_id s)) (matching_slots slots a) @ bound_columns c slots xs"
    by (simp add: bound_columns_def)
  have ih: "length (bound_columns c slots xs) + length (filter (\<lambda>pc. matching_slots slots pc = []) xs)
      = length xs"
    using Cons by simp
  have le: "length (matching_slots slots a) \<le> 1" using Cons.prems by simp
  show ?case
  proof (cases "matching_slots slots a = []")
    case True
    then show ?thesis using ih by (simp add: b)
  next
    case False
    then have "length (matching_slots slots a) = 1"
      using le by (cases "matching_slots slots a") auto
    then show ?thesis using ih False by (simp add: b)
  qed
qed

lemma bound_columns_position:
  assumes one: "\<forall>pc \<in> set pcs. length (matching_slots slots pc) \<le> 1"
      and k: "k < length pcs"
      and m: "matching_slots slots (pcs ! k) \<noteq> []"
  shows "k - unmatched_before slots pcs k < length (bound_columns c slots pcs)"
    and "bound_columns c slots pcs ! (k - unmatched_before slots pcs k)
           = get_column_by_slot_id c (slot_id (hd (matching_slots slots (pcs ! k))))"
proof -
  let ?pre = "take k pcs"
  let ?post = "drop (Suc k) pcs"
  have split: "pcs = ?pre @ pcs ! k # ?post"
    using k by (rule id_take_nth_drop)
  have "\<forall>pc \<in> set ?pre. length (matching_slots slots pc) \<le> 1"
    using one by (meson in_set_takeD)
  then have "length (bound_columns c slots ?pre) + unmatched_before slots pcs k = length ?pre"
    unfolding unmatched_before_def by (rule length_bound_columns_at_most_one)
  then have pos: "k - unmatched_before slots pcs k = length (bound_columns c slots ?pre)"
    using k by simp
  have "length (matching_slots slots (pcs ! k)) \<le> 1"
    using one k by simp
  then obtain s where s: "matching_slots slots (pcs ! k) = [s]"
    using m by (cases "matching_slots slots (pcs ! k)") auto
  define P where "P = bound_columns c slots ?pre"
  define Q where "Q = bound_columns c slots ?post"
  have "bound_columns c slots (pcs ! k # ?post) = get_column_by_slot_id c (slot_id s) # Q"
    by (simp add: bound_columns_def s Q_def)
  then have "bound_columns c slots (?pre @ pcs ! k # ?post) = P @ get_column_by_slot_id c (slot_id s) # Q"
    by (simp add: bound_columns_append P_def)
  then have B: "bound_columns c slots pcs = P @ get_column_by_slot_id c (slot_id s) # Q"
    using split by simp
  have pos': "k - unmatched_before slots pcs k = length P"
    using pos by (simp add: P_def)
  show "k - unmatched_before slots pcs k < length (bound_columns c slots pcs)"
    unfolding pos' B by simp
  show "bound_columns c slots pcs ! (k - unmatched_before slots pcs k)
           = get_column_by_slot_id c (slot_id (hd (matching_slots slots (pcs ! k))))"
    unfolding pos' B by (simp add: s)
qed

text \<open>
  C10, as the code has it. If every partition column's source name matches exactly one
  slot name, the k-th entry of the array is the column of the slot named by the k-th
  partition column; if moreover the chunk holds a column for every slot, no null column
  is ever read. If no partition column matches more than one slot and some partition
  column matches none, the array holds the columns of the matched ones, in order and
  without gaps, followed by null entries: the column of a matched partition column sits
  at its own index less the number of unmatched partition columns before it, and the
  last entry is null. If in addition all transforms are \<open>day\<close> and the chunk has a row,
  deriving the key of the first row is undefined: it reads a null column, or it reads a
  bound column beyond its end; and it is the null column that is read if the bound
  columns hold the row.
\<close>

theorem partition_column_binding:
  "((\<forall>pc \<in> set (partitionColumns (t_iceberg_sink S)). length (matching_slots (output_slots S) pc) = 1) \<longrightarrow>
      bind_partition_columns c (output_slots S) (partitionColumns (t_iceberg_sink S))
        = Inr (map (\<lambda>pc. get_column_by_slot_id c (slot_id (hd (matching_slots (output_slots S) pc))))
                 (partitionColumns (t_iceberg_sink S)))
    \<and> ((\<forall>s \<in> set (output_slots S). get_column_by_slot_id c (slot_id s) \<noteq> None) \<longrightarrow>
          fst (route_chunk S L e st c) \<noteq> Undefined NullColumn))
   \<and> ((\<forall>pc \<in> set (partitionColumns (t_iceberg_sink S)). length (matching_slots (output_slots S) pc) \<le> 1)
       \<and> (\<exists>pc \<in> set (partitionColumns (t_iceberg_sink S)). matching_slots (output_slots S) pc = []) \<longrightarrow>
      (\<exists>arr. bind_partition_columns c (output_slots S) (partitionColumns (t_iceberg_sink S)) = Inr arr
         \<and> length arr = length (partitionColumns (t_iceberg_sink S))
         \<and> arr = bound_columns c (output_slots S) (partitionColumns (t_iceberg_sink S))
                 @ replicate (length (partitionColumns (t_iceberg_sink S))
                              - length (bound_columns c (output_slots S) (partitionColumns (t_iceberg_sink S))))
                     None
         \<and> (\<forall>k < length (partitionColumns (t_iceberg_sink S)).
               matching_slots (output_slots S) (partitionColumns (t_iceberg_sink S) ! k) \<noteq> [] \<longrightarrow>
               arr ! (k - unmatched_before (output_slots S) (partitionColumns (t_iceberg_sink S)) k)
                 = get_column_by_slot_id c
                     (slot_id (hd (matching_slots (output_slots S) (partitionColumns (t_iceberg_sink S) ! k)))))
         \<and> last arr = None)
    \<and> ((\<forall>pc \<in> set (partitionColumns (t_iceberg_sink S)). transform pc = ''day'')
        \<and> 0 < num_rows c \<longrightarrow>
          (route_chunk S L e st c = (Undefined NullColumn, st)
           \<or> route_chunk S L e st c = (Undefined IndexOutOfRange, st))
        \<and> ((\<forall>col. Some col \<in> set (bound_columns c (output_slots S) (partitionColumns (t_iceberg_sink S)))
                 \<longrightarrow> 0 < length col) \<longrightarrow>
              route_chunk S L e st c = (Undefined NullColumn, st))))"
proof (intro conjI impI)
  let ?pcs = "partitionColumns (t_iceberg_sink S)"
  let ?slots = "output_slots S"
  let ?B = "bound_columns c ?slots ?pcs"
  let ?cols = "map (\<lambda>pc. get_column_by_slot_id c (slot_id (hd (matching_slots ?slots pc)))) ?pcs"
  {
    assume one: "\<forall>pc \<in> set ?pcs. length (matching_slots ?slots pc) = 1"
    have B: "?B = ?cols" using one by (rule bound_columns_exactly_one)
    show bind: "bind_partition_columns c ?slots ?pcs = Inr ?cols"
      by (simp add: bind_partition_columns_char B)
    assume has: "\<forall>s \<in> set ?slots. get_column_by_slot_id c (slot_id s) \<noteq> None"
    have "\<forall>j < length ?cols. \<exists>col. ?cols ! j = Some col"
    proof (intro allI impI)
      fix j
      assume j: "j < length ?cols"
      then have "?pcs ! j \<in> set ?pcs" by simp
      then have "length (matching_slots ?slots (?pcs ! j)) = 1" using one by blast
      then have "matching_slots ?slots (?pcs ! j) \<noteq> []" by auto
      then have "hd (matching_slots ?slots (?pcs ! j)) \<in> set (matching_slots ?slots (?pcs ! j))"
        by (rule hd_in_set)
      then have "hd (matching_slots ?slots (?pcs ! j)) \<in> set ?slots"
        by (simp add: matching_slots_def)
      then have "get_column_by_slot_id c (slot_id (hd (matching_slots ?slots (?pcs ! j)))) \<noteq> None"
        using has by blast
      then show "\<exists>col. ?cols ! j = Some col" using j by auto
    qed
    with bind show "fst (route_chunk S L e st c) \<noteq> Undefined NullColumn"
      by (rule route_chunk_no_null)
  }
  {
    assume h: "(\<forall>pc \<in> set ?pcs. length (matching_slots ?slots pc) \<le> 1)
               \<and> (\<exists>pc \<in> set ?pcs. matching_slots ?slots pc = [])"
    let ?arr = "?B @ replicate (length ?pcs - length ?B) None"
    have "\<exists>pc \<in> set ?pcs. length (matching_slots ?slots pc) = 0" using h by simp
    then have lt: "length ?B < length ?pcs"
      using h sum_list_one_missing [of ?pcs "\<lambda>pc. length (matching_slots ?slots pc)"]
      by (simp add: length_bound_columns)
    then have bind: "bind_partition_columns c ?slots ?pcs = Inr ?arr"
      by (simp add: bind_partition_columns_char)
    have len: "length ?arr = length ?pcs" using lt by simp
    have pos: "\<forall>k < length ?pcs. matching_slots ?slots (?pcs ! k) \<noteq> [] \<longrightarrow>
               ?arr ! (k - unmatched_before ?slots ?pcs k)
                 = get_column_by_slot_id c (slot_id (hd (matching_slots ?slots (?pcs ! k))))"
    proof (intro allI impI)
      fix k
      assume k: "k < length ?pcs" and m: "matching_slots ?slots (?pcs ! k) \<noteq> []"
      have one: "\<forall>pc \<in> set ?pcs. length (matching_slots ?slots pc) \<le> 1" using h by simp
      have "k - unmatched_before ?slots ?pcs k < length ?B"
        using one k m by (rule bound_columns_position(1))
      then have "?arr ! (k - unmatched_before ?slots ?pcs k) = ?B ! (k - unmatched_before ?slots ?pcs k)"
        by (simp add: nth_append)
      then show "?arr ! (k - unmatched_before ?slots ?pcs k)
                 = get_column_by_slot_id c (slot_id (hd (matching_slots ?slots (?pcs ! k))))"
        using bound_columns_position(2) [OF one k m, of c] by simp
    qed
    have lst: "last ?arr = None"
      using lt by simp
    show "\<exists>arr. bind_partition_columns c ?slots ?pcs = Inr arr
         \<and> length arr = length ?pcs
         \<and> arr = ?B @ replicate (length ?pcs - length ?B) None
         \<and> (\<forall>k < length ?pcs. matching_slots ?slots (?pcs ! k) \<noteq> [] \<longrightarrow>
               arr ! (k - unmatched_before ?slots ?pcs k)
                 = get_column_by_slot_id c (slot_id (hd (matching_slots ?slots (?pcs ! k)))))
         \<and> last arr = None"
      using bind len pos lst by blast
    assume dr: "(\<forall>pc \<in> set ?pcs. transform pc = ''day'') \<and> 0 < num_rows c"
    then show "route_chunk S L e st c = (Undefined NullColumn, st)
               \<or> route_chunk S L e st c = (Undefined IndexOutOfRange, st)"
      using route_chunk_null_or_range [OF bind, of L e st] lt by simp
    assume "\<forall>col. Some col \<in> set ?B \<longrightarrow> 0 < length col"
    then show "route_chunk S L e st c = (Undefined NullColumn, st)"
      using route_chunk_null [OF bind, of L e st] lt dr by simp
  }
qed


text \<open>
  The example sink binds its one column. With a partition column that no slot is named
  after in front of the column \<open>ts\<close>, the column of \<open>ts\<close> sits at index 0, not 1, the
  last entry is null, and the first row reads it.
\<close>

theorem partition_column_binding_witness:
  "list_all (\<lambda>pc. length (matching_slots (output_slots ex_sink) pc) = 1)
      (partitionColumns (t_iceberg_sink ex_sink))
   \<and> list_all (\<lambda>s. get_column_by_slot_id ex_chunk1 (slot_id s) \<noteq> None) (output_slots ex_sink)
   \<and> bind_partition_columns ex_chunk1 (output_slots ex_sink) (partitionColumns (t_iceberg_sink ex_sink))
        = Inr [Some [1704067800]]
   \<and> fst (route_chunk ex_sink libstdcxx ex_env initial_state ex_chunk1) \<noteq> Undefined NullColumn
   \<and> list_all (\<lambda>pc. length (matching_slots (output_slots ex_sink_head_unbound) pc) \<le> 1)
        (partitionColumns (t_iceberg_sink ex_sink_head_unbound))
   \<and> (\<exists>pc \<in> set (partitionColumns (t_iceberg_sink ex_sink_head_unbound)).
         matching_slots (output_slots ex_sink_head_unbound) pc = [])
   \<and> list_all (\<lambda>pc. transform pc = ''day'') (partitionColumns (t_iceberg_sink ex_sink_head_unbound))
   \<and> 0 < num_rows ex_chunk1
   \<and> bound_columns ex_chunk1 (output_slots ex_sink_head_unbound)
        (partitionColumns (t_iceberg_sink ex_sink_head_unbound)) = [Some [1704067800]]
   \<and> bind_partition_columns ex_chunk1 (output_slots ex_sink_head_unbound)
        (partitionColumns (t_iceberg_sink ex_sink_head_unbound)) = Inr [Some [1704067800], None]
   \<and> unmatched_before (output_slots ex_sink_head_unbound)
        (partitionColumns (t_iceberg_sink ex_sink_head_unbound)) 1 = 1
   \<and> route_chunk ex_sink_head_unbound libstdcxx ex_env initial_state ex_chunk1
        = (Undefined NullColumn, initial_state)"
proof -
  let ?pcs = "partitionColumns (t_iceberg_sink ex_sink_head_unbound)"
  let ?slots = "output_slots ex_sink_head_unbound"
  have a: "\<forall>pc \<in> set (partitionColumns (t_iceberg_sink ex_sink)).
             length (matching_slots (output_slots ex_sink) pc) = 1"
    by (simp add: ex_defs matching_slots_def)
  have b: "\<forall>s \<in> set (output_slots ex_sink). get_column_by_slot_id ex_chunk1 (slot_id s) \<noteq> None"
    by (simp add: ex_defs ex_chunk1_def get_column_by_slot_id_def nth_opt_def)
  have v: "map (\<lambda>pc. get_column_by_slot_id ex_chunk1 (slot_id (hd (matching_slots (output_slots ex_sink) pc))))
             (partitionColumns (t_iceberg_sink ex_sink)) = [Some [1704067800]]"
    by (simp add: ex_defs ex_chunk1_def matching_slots_def get_column_by_slot_id_def nth_opt_def)
  have c: "(\<forall>pc \<in> set ?pcs. length (matching_slots ?slots pc) \<le> 1)
         \<and> (\<exists>pc \<in> set ?pcs. matching_slots ?slots pc = [])"
    by (simp add: ex_sink_head_unbound_def ex_defs matching_slots_def)
  have B: "bound_columns ex_chunk1 ?slots ?pcs = [Some [1704067800]]"
    by (simp add: bound_columns_def ex_sink_head_unbound_def ex_defs matching_slots_def
          ex_chunk1_def get_column_by_slot_id_def nth_opt_def)
  have n: "length ?pcs = 2"
    by (simp add: ex_sink_head_unbound_def ex_defs)
  have u: "unmatched_before ?slots ?pcs 1 = 1"
    by (simp add: unmatched_before_def ex_sink_head_unbound_def ex_defs matching_slots_def)
  have d: "(\<forall>pc \<in> set ?pcs. transform pc = ''day'') \<and> 0 < num_rows ex_chunk1"
    by (simp add: ex_sink_head_unbound_def ex_defs num_rows_def ex_chunk1_def)
  have d2: "\<forall>col. Some col \<in> set (bound_columns ex_chunk1 ?slots ?pcs) \<longrightarrow> 0 < length col"
    by (simp add: B)
  have first: "bind_partition_columns ex_chunk1 (output_slots ex_sink) (partitionColumns (t_iceberg_sink ex_sink))
        = Inr [Some [1704067800]]
      \<and> fst (route_chunk ex_sink libstdcxx ex_env initial_state ex_chunk1) \<noteq> Undefined NullColumn"
    using partition_column_binding [of ex_sink ex_chunk1 libstdcxx ex_env initial_state] a b
    unfolding v by blast
  have second: "(\<exists>arr. bind_partition_columns ex_chunk1 ?slots ?pcs = Inr arr
          \<and> arr = [Some [1704067800]] @ replicate (2 - length [Some [1704067800 :: int]]) None)
      \<and> route_chunk ex_sink_head_unbound libstdcxx ex_env initial_state ex_chunk1
        = (Undefined NullColumn, initial_state)"
    using partition_column_binding [of ex_sink_head_unbound ex_chunk1 libstdcxx ex_env initial_state] c d d2
    unfolding B n by blast
  then have third: "bind_partition_columns ex_chunk1 ?slots ?pcs = Inr [Some [1704067800], None]"
    by auto
  show ?thesis
    unfolding list_all_iff using a b c d first second third B u by simp
qed

text \<open>
  C10 as stated fails on a chunk without rows, and where a transform is not \<open>day\<close>: the
  partition column \<open>ts\<close> matches no slot, yet no null column is read. An empty chunk is
  sent with OK; a chunk with a row and an \<open>hour\<close> transform is refused with
  \<open>NotSupported\<close> before any column is read. Where the unmatched partition column
  is the last one, no entry is misaligned: the column of \<open>ts\<close> sits at index 0, its own.
  And where another partition column matches two slots, the array has no null entry:
  the chunk is sent with OK.
\<close>

theorem partition_column_binding_counterexample:
  "matching_slots (output_slots ex_sink_unbound) (hd (partitionColumns (t_iceberg_sink ex_sink_unbound))) = []
   \<and> send_chunk ex_sink_unbound libstdcxx ex_env initial_state ex_chunk0
       = (Returned OK, initial_state, ex_chunk0)
   \<and> matching_slots (output_slots (ex_sink_hour\<lparr>output_slots := []\<rparr>))
        (hd (partitionColumns (t_iceberg_sink (ex_sink_hour\<lparr>output_slots := []\<rparr>)))) = []
   \<and> fst (send_chunk (ex_sink_hour\<lparr>output_slots := []\<rparr>) libstdcxx ex_env initial_state ex_chunk1)
       = Returned (NotSupported ''unsupported transform hour'')
   \<and> matching_slots (output_slots ex_sink_tail_unbound)
        (partitionColumns (t_iceberg_sink ex_sink_tail_unbound) ! 1) = []
   \<and> bind_partition_columns ex_chunk1 (output_slots ex_sink_tail_unbound)
        (partitionColumns (t_iceberg_sink ex_sink_tail_unbound)) = Inr [Some [1704067800], None]
   \<and> get_column_by_slot_id ex_chunk1
        (slot_id (hd (matching_slots (output_slots ex_sink_tail_unbound)
                        (partitionColumns (t_iceberg_sink ex_sink_tail_unbound) ! 0))))
       = Some [1704067800]
   \<and> matching_slots (output_slots ex_sink_twice) (partitionColumns (t_iceberg_sink ex_sink_twice) ! 1) = []
   \<and> bind_partition_columns ex_chunk_two (output_slots ex_sink_twice)
        (partitionColumns (t_iceberg_sink ex_sink_twice)) = Inr [Some [1704067800], Some [1704067800]]
   \<and> fst (send_chunk ex_sink_twice libstdcxx ex_env initial_state ex_chunk_two) = Returned OK"
proof -
  have d: "bind_partition_columns ex_chunk_two (output_slots ex_sink_twice)
        (partitionColumns (t_iceberg_sink ex_sink_twice)) = Inr [Some [1704067800], Some [1704067800]]"
    by (simp add: ex_sink_twice_def ex_defs ex_chunk_two_def bind_partition_columns_def
          get_column_by_slot_id_def nth_opt_def)
  have f: "fst (send_chunk ex_sink_twice libstdcxx ex_env initial_state ex_chunk_two) = Returned OK"
    by (simp add: send_defs ex_sink_twice_def ex_chunk_two_def initial_state_def)
  have a: "send_chunk ex_sink_unbound libstdcxx ex_env initial_state ex_chunk0
       = (Returned OK, initial_state, ex_chunk0)"
    by (simp add: send_defs ex_sink_unbound_def ex_chunk0_def initial_state_def)
  have b: "fst (send_chunk (ex_sink_hour\<lparr>output_slots := []\<rparr>) libstdcxx ex_env initial_state ex_chunk1)
       = Returned (NotSupported ''unsupported transform hour'')"
    by (simp add: send_defs ex_sink_hour_def ex_chunk1_def initial_state_def)
  have c: "bind_partition_columns ex_chunk1 (output_slots ex_sink_tail_unbound)
        (partitionColumns (t_iceberg_sink ex_sink_tail_unbound)) = Inr [Some [1704067800], None]"
    by (simp add: ex_sink_tail_unbound_def ex_defs ex_chunk1_def bind_partition_columns_def
          get_column_by_slot_id_def nth_opt_def)
  show ?thesis
    unfolding a b c d f
    by (simp add: ex_sink_unbound_def ex_sink_hour_def ex_sink_tail_unbound_def ex_sink_twice_def ex_defs
          matching_slots_def ex_chunk1_def get_column_by_slot_id_def nth_opt_def)
qed

subsection \<open>Grouping the rows\<close>

text \<open>
  The vector of keys never holds a key twice: \<open>std::find\<close> compares the strings. With
  keys too long for the string object the rows' references are heap blocks, which moves
  preserve, and the three example rows are selected as their keys say.
\<close>

lemma find_pos_length_iff: "find_pos xs k = length xs \<longleftrightarrow> k \<notin> set xs"
proof (induction xs)
  case Nil
  then show ?case by simp
next
  case (Cons x xs)
  have "find_pos xs k \<le> length xs" for xs
    by (induction xs) auto
  then show ?case using Cons by (auto simp: le_Suc_eq)
qed

lemma keys_of_emplace_back: "keys_of (emplace_back L kv s) = keys_of kv @ [s]"
  by (simp add: emplace_back_def keys_of_def Let_def)

lemma assign_rows_keys_distinct:
  "assign_rows L e arr pcs rows (kv, refs) = Inr (kv', refs') \<Longrightarrow> distinct (keys_of kv)
   \<Longrightarrow> distinct (keys_of kv')"
proof (induction rows arbitrary: kv refs)
  case Nil
  then show ?case by simp
next
  case (Cons i rows)
  obtain key where key: "derive_key e arr pcs 0 i [] = Inr key"
    using Cons.prems(1) by (cases "derive_key e arr pcs 0 i []") auto
  let ?kv = "if find_pos (keys_of kv) key = length (keys_of kv) then emplace_back L kv key else kv"
  have d: "distinct (keys_of ?kv)"
    using Cons.prems(2) by (simp add: find_pos_length_iff keys_of_emplace_back)
  have "assign_rows L e arr pcs rows
          (?kv, refs[i := Some (data_ptr L ?kv (find_pos (keys_of ?kv) key))]) = Inr (kv', refs')"
    using Cons.prems(1) key by (simp add: Let_def)
  then show ?case using d by (rule Cons.IH)
qed

lemma long_keys_grouped:
  "assign_rows libstdcxx ex_env [Some [1704067800, 1704153000, 1704153900]]
      (partitionColumns (t_iceberg_sink ex_sink_long)) [0 ..< 3] (empty_vector, replicate 3 None)
    = Inr (\<lparr>kv_items = [(''event_date=2024-01-01/'', 0), (''event_date=2024-01-02/'', 1)],
             kv_capacity = 2, kv_buffer = 2, kv_blocks = 2\<rparr>,
           [Some (Heap 0), Some (Heap 0), Some (Heap 1)])"
  "select_rows [Some (Heap 0), Some (Heap 0), Some (Heap 1)]
     (data_ptr libstdcxx \<lparr>kv_items = [(''event_date=2024-01-01/'', 0), (''event_date=2024-01-02/'', 1)],
             kv_capacity = 2, kv_buffer = 2, kv_blocks = 2\<rparr> 0) = [0, 1]"
  "select_rows [Some (Heap 0), Some (Heap 0), Some (Heap 1)]
     (data_ptr libstdcxx \<lparr>kv_items = [(''event_date=2024-01-01/'', 0), (''event_date=2024-01-02/'', 1)],
             kv_capacity = 2, kv_buffer = 2, kv_blocks = 2\<rparr> 1) = [2]"
  by (simp_all add: ex_sink_long_def ex_sink_def ex_cfg_def ex_env_def libstdcxx_def nth_opt_def
       upt_conv_Cons eval_nat_numeral empty_vector_def keys_of_def emplace_back_def data_ptr_def
       select_rows_def Let_def)

lemma ex_bind:
  "bind_partition_columns ex_chunk (output_slots ex_sink) (partitionColumns (t_iceberg_sink ex_sink))
     = Inr [Some [1704067800, 1704153000, 1704153900]]"
  by (simp add: ex_sink_def ex_cfg_def ex_chunk_def bind_partition_columns_def get_column_by_slot_id_def nth_opt_def)

lemma ex_assign:
  assumes "14 \<le> sso_capacity L" and "grow L 0 = 1"
  shows "assign_rows L ex_env [Some [1704067800, 1704153000, 1704153900]]
      (partitionColumns (t_iceberg_sink ex_sink)) [0 ..< 3] (empty_vector, replicate 3 None)
    = Inr (ex_keys (grow L 1), ex_refs)"
  using assms
  by (simp add: ex_sink_def ex_cfg_def ex_env_def nth_opt_def upt_conv_Cons eval_nat_numeral
     empty_vector_def keys_of_def emplace_back_def data_ptr_def Let_def ex_keys_def ex_refs_def)

lemma ex_select:
  assumes "14 \<le> sso_capacity L"
  shows "select_rows ex_refs (data_ptr L (ex_keys n) 0) = []"
    and "select_rows ex_refs (data_ptr L (ex_keys n) (Suc 0)) = [2]"
    and "keys_of (ex_keys n) = [''dt=2024-01-01/'', ''dt=2024-01-02/'']"
  using assms
  by (simp_all add: select_rows_def data_ptr_def upt_conv_Cons eval_nat_numeral ex_keys_def
        ex_refs_def keys_of_def)

lemma ex_gather:
  "append_selective ex_chunk [] = Inr ex_chunk0"
  "append_selective ex_chunk [2] = Inr ex_chunk2"
  by (simp_all add: append_selective_def ex_chunk_def ex_chunk0_def ex_chunk2_def)

lemma ex_write0:
  "write_to_partition ex_sink ex_env initial_state ex_chunk0 ''dt=2024-01-01/''
    = (Returned OK, ex_state1\<lparr>add_chunk_log := [(''dt=2024-01-01/'', ex_chunk0)]\<rparr>)"
  by (simp add: write_defs ex_defs initial_state_def ex_state1_def ex_writer1_def Let_def)

lemma ex_write1:
  "write_to_partition ex_sink ex_env (ex_state1\<lparr>add_chunk_log := [(''dt=2024-01-01/'', ex_chunk0)]\<rparr>)
      ex_chunk2 ''dt=2024-01-02/''
    = (Returned OK, ex_state_dropped)"
  by (simp add: write_defs ex_defs ex_state1_def ex_state_dropped_def ex_writer1_def ex_writer2_def Let_def)

lemma ex_write_partitions:
  assumes "14 \<le> sso_capacity L"
  shows "write_partitions ex_sink L ex_env ex_chunk (ex_keys n) ex_refs [0, Suc 0] initial_state
         = (Returned OK, ex_state_dropped)"
  by (simp add: ex_select [OF assms] ex_gather ex_write0 ex_write1 ok_def)

text \<open>
  C1 fails on the code. The three rows of \<open>ex_chunk\<close> have the keys \<open>dt=2024-01-01/\<close>
  (twice) and \<open>dt=2024-01-02/\<close>, 14 characters each. Under a standard library that keeps
  14 characters inside the string object and gives an empty vector the capacity 1
  (libstdc++, libc++ and the Microsoft library all do), appending the second key moves
  the first key to a new buffer, so the references of rows 0 and 1 equal no key's
  \<open>data()\<close> any more. \<open>send_chunk\<close> returns OK; the partition of the first day receives a
  chunk without rows, the partition of the second day receives row 2, and rows 0 and 1
  are written nowhere.
\<close>

theorem send_chunk_drops_rows:
  assumes "14 \<le> sso_capacity L" and "grow L 0 = 1"
  shows "send_chunk ex_sink L ex_env initial_state ex_chunk = (Returned OK, ex_state_dropped, ex_chunk)"
proof -
  have r: "reindex_slots (output_slots ex_sink) ex_chunk = ex_chunk"
    by (simp add: reindex_slots_def ex_sink_def ex_chunk_def)
  have n: "num_rows ex_chunk = 3"
    by (simp add: num_rows_def ex_chunk_def)
  have "route_chunk ex_sink L ex_env initial_state ex_chunk = (Returned OK, ex_state_dropped)"
    by (simp add: route_chunk_def ex_bind n ex_assign [OF assms] ex_select(3) [OF assms(1)]
          ex_write_partitions [OF assms(1)] del: write_partitions.simps)
  then show ?thesis
    by (simp add: send_chunk_def r) (simp add: ex_sink_def)
qed

theorem send_chunk_drops_rows_witness:
  "14 \<le> sso_capacity libstdcxx \<and> grow libstdcxx 0 = 1
   \<and> send_chunk ex_sink libstdcxx ex_env initial_state ex_chunk = (Returned OK, ex_state_dropped, ex_chunk)
   \<and> map (\<lambda>kc. (fst kc, columns (snd kc))) (add_chunk_log ex_state_dropped)
       = [(''dt=2024-01-01/'', [[]]), (''dt=2024-01-02/'', [[1704153900]])]"
proof -
  have a: "14 \<le> sso_capacity libstdcxx" and b: "grow libstdcxx 0 = 1"
    by (simp_all add: libstdcxx_def)
  show ?thesis
    using send_chunk_drops_rows [OF a b] a b
    by (simp add: ex_state_dropped_def ex_chunk0_def ex_chunk2_def)
qed

end
